theory Spec2Isabelle
  imports Main "HOL-Library.Log_Nat" "HOL-Library.Product_Lexorder"
begin

section \<open>Cell values\<close>

subsection \<open>Float64\<close>

text \<open>
  A cell of a numeric column is a float64.  \<open>NaN\<close> is also the missing value of such a
  column (what \<^verbatim>\<open>dropna\<close> removes and what \<^verbatim>\<open>errors="coerce"\<close> produces), and it stands
  for \<^verbatim>\<open>pd.NA\<close> too.  Finite values are rationals, \<open>Fin 0\<close> being the positive zero and
  \<open>NZero\<close> the negative zero.  Every arithmetic result is rounded to the nearest double, ties
  to even, and signs of zeros and infinities follow IEEE 754.
\<close>

datatype f64 = NaN | Fin rat | NZero | PInf | NInf

definition pow2 :: "int \<Rightarrow> rat" where
  "pow2 e = (if 0 \<le> e then 2 ^ nat e else 1 / 2 ^ nat (- e))"

text \<open>\<open>ilog2 a\<close> is the binary exponent of a positive rational: \<open>2^e \<le> a < 2^(e+1)\<close>.\<close>

definition ilog2 :: "rat \<Rightarrow> int" where
  "ilog2 a = (if 1 \<le> a then bitlen \<lfloor>a\<rfloor> - 1 else - bitlen (\<lceil>1 / a\<rceil> - 1))"

definition round_half_even :: "rat \<Rightarrow> int" where
  "round_half_even m =
     (let n = \<lfloor>m\<rfloor>; r = m - of_int n
      in if r < 1 / 2 then n else if 1 / 2 < r then n + 1
         else if even n then n else n + 1)"

definition signed_inf :: "rat \<Rightarrow> f64" where
  "signed_inf x = (if 0 < x then PInf else NInf)"

definition signed_zero :: "bool \<Rightarrow> f64" where
  "signed_zero negative = (if negative then NZero else Fin 0)"

text \<open>
  Rounding to binary64: 53 significant bits, exponents from \<open>-1022\<close> (below which the
  spacing stays \<open>2^-1074\<close>) to \<open>1023\<close> (above which the result is an infinity).  A value
  that rounds to zero keeps its sign.
\<close>

definition round64 :: "rat \<Rightarrow> f64" where
  "round64 x =
     (if x = 0 then Fin 0
      else if 1023 < ilog2 \<bar>x\<bar> then signed_inf x
      else let e = max (ilog2 \<bar>x\<bar>) (- 1022);
               q = pow2 (e - 52);
               n = round_half_even (\<bar>x\<bar> / q)
           in if e = 1023 \<and> n = 9007199254740992 then signed_inf x
              else if n = 0 then signed_zero (x < 0)
              else Fin (if 0 < x then of_int n * q else - (of_int n * q)))"

fun fdiv :: "f64 \<Rightarrow> f64 \<Rightarrow> f64" where
  "fdiv NaN y = NaN"
| "fdiv x NaN = NaN"
| "fdiv (Fin a) (Fin b) =
     (if b = 0 then (if a = 0 then NaN else signed_inf a)
      else if a = 0 then signed_zero (b < 0)
      else round64 (a / b))"
| "fdiv (Fin a) NZero = (if a = 0 then NaN else signed_inf (- a))"
| "fdiv NZero (Fin b) = (if b = 0 then NaN else signed_zero (0 < b))"
| "fdiv NZero NZero = NaN"
| "fdiv (Fin a) PInf = signed_zero (a < 0)"
| "fdiv (Fin a) NInf = signed_zero (0 \<le> a)"
| "fdiv NZero PInf = NZero"
| "fdiv NZero NInf = Fin 0"
| "fdiv PInf (Fin b) = (if b < 0 then NInf else PInf)"
| "fdiv PInf NZero = NInf"
| "fdiv NInf (Fin b) = (if b < 0 then PInf else NInf)"
| "fdiv NInf NZero = PInf"
| "fdiv PInf PInf = NaN"
| "fdiv PInf NInf = NaN"
| "fdiv NInf PInf = NaN"
| "fdiv NInf NInf = NaN"

fun fsub :: "f64 \<Rightarrow> f64 \<Rightarrow> f64" where
  "fsub NaN y = NaN"
| "fsub x NaN = NaN"
| "fsub (Fin a) (Fin b) = round64 (a - b)"
| "fsub (Fin a) NZero = round64 a"
| "fsub NZero (Fin b) = (if b = 0 then NZero else round64 (- b))"
| "fsub NZero NZero = Fin 0"
| "fsub (Fin a) PInf = NInf"
| "fsub (Fin a) NInf = PInf"
| "fsub NZero PInf = NInf"
| "fsub NZero NInf = PInf"
| "fsub PInf (Fin b) = PInf"
| "fsub PInf NZero = PInf"
| "fsub NInf (Fin b) = NInf"
| "fsub NInf NZero = NInf"
| "fsub PInf PInf = NaN"
| "fsub PInf NInf = PInf"
| "fsub NInf PInf = NInf"
| "fsub NInf NInf = NaN"

fun fmul :: "f64 \<Rightarrow> f64 \<Rightarrow> f64" where
  "fmul NaN y = NaN"
| "fmul x NaN = NaN"
| "fmul (Fin a) (Fin b) =
     (if a = 0 \<or> b = 0 then signed_zero ((a < 0) \<noteq> (b < 0)) else round64 (a * b))"
| "fmul (Fin a) NZero = signed_zero (0 \<le> a)"
| "fmul NZero (Fin b) = signed_zero (0 \<le> b)"
| "fmul NZero NZero = Fin 0"
| "fmul (Fin a) PInf = (if a = 0 then NaN else signed_inf a)"
| "fmul (Fin a) NInf = (if a = 0 then NaN else signed_inf (- a))"
| "fmul NZero PInf = NaN"
| "fmul NZero NInf = NaN"
| "fmul PInf (Fin b) = (if b = 0 then NaN else signed_inf b)"
| "fmul NInf (Fin b) = (if b = 0 then NaN else signed_inf (- b))"
| "fmul PInf NZero = NaN"
| "fmul NInf NZero = NaN"
| "fmul PInf PInf = PInf"
| "fmul PInf NInf = NInf"
| "fmul NInf PInf = NInf"
| "fmul NInf NInf = PInf"

text \<open>The expression \<^verbatim>\<open>(v / base - 1.0) * 100.0\<close> of \<^verbatim>\<open>normalize_from_first\<close>, on one cell.\<close>

definition pct_change :: "f64 \<Rightarrow> f64 \<Rightarrow> f64" where
  "pct_change base v = fmul (fsub (fdiv v base) (Fin 1)) (Fin 100)"

subsection \<open>Timestamps\<close>

text \<open>
  A timestamp is year, month, day and the time of day in nanoseconds, compared
  lexicographically.  \<open>None\<close> in a datetime column is \<^verbatim>\<open>NaT\<close>.  The library's bounds on
  representable timestamps are not modelled.
\<close>

type_synonym timestamp = "int \<times> nat \<times> nat \<times> nat"

section \<open>Data frames\<close>

text \<open>
  A frame is an ordered list of named columns; each column has one element type, as in the
  library.  The frame read from the CSV holds text; \<^verbatim>\<open>tidy_df\<close> turns \<open>Date\<close> into a
  datetime column and every other column into a float64 column.  The row labels are the
  positions \<open>0, 1, \<dots>\<close> given by \<^verbatim>\<open>read_csv\<close>; they are unique, so assigning a column
  derived from the same frame aligns row by row.
\<close>

datatype column = StrCol "string list" | TsCol "timestamp option list" | NumCol "f64 list"

type_synonym frame = "(string \<times> column) list"

datatype error =
    SchemaError            \<comment> \<open>the \<^verbatim>\<open>ValueError\<close> raised by \<^verbatim>\<open>tidy_df\<close> itself\<close>
  | DuplicateKeys          \<comment> \<open>\<^verbatim>\<open>ValueError\<close> of \<^verbatim>\<open>to_datetime\<close> on a frame with duplicate labels\<close>
  | AttributeError
  | KeyError string
  | TypeError

fun col_len :: "column \<Rightarrow> nat" where
  "col_len (StrCol xs) = length xs"
| "col_len (TsCol ts) = length ts"
| "col_len (NumCol xs) = length xs"

definition columns :: "frame \<Rightarrow> string list" where
  "columns df = map fst df"

definition nrows :: "frame \<Rightarrow> nat" where
  "nrows df = (case df of [] \<Rightarrow> 0 | (n, col) # rest \<Rightarrow> col_len col)"

text \<open>\<^verbatim>\<open>df[c]\<close> for a label that names at most one column.\<close>

definition getitem :: "frame \<Rightarrow> string \<Rightarrow> error + column" where
  "getitem df c = (case map_of df c of None \<Rightarrow> Inl (KeyError c) | Some col \<Rightarrow> Inr col)"

text \<open>\<^verbatim>\<open>df[[c1, ...]]\<close>: the named columns, in the order asked for.\<close>

definition getitems :: "frame \<Rightarrow> string list \<Rightarrow> error + frame" where
  "getitems df cs =
     (case List.find (\<lambda>c. c \<notin> set (columns df)) cs of
        Some c \<Rightarrow> Inl (KeyError c)
      | None \<Rightarrow> Inr (concat (map (\<lambda>c. filter (\<lambda>p. fst p = c) df) cs)))"

text \<open>\<^verbatim>\<open>df[c] = col\<close>: replaces the column named \<open>c\<close>, or appends a new last column.\<close>

definition setitem :: "frame \<Rightarrow> string \<Rightarrow> column \<Rightarrow> frame" where
  "setitem df c col =
     (if c \<in> set (columns df) then map (\<lambda>p. if fst p = c then (c, col) else p) df
      else df @ [(c, col)])"

fun dropna :: "column \<Rightarrow> column" where
  "dropna (StrCol xs) = StrCol xs"
| "dropna (TsCol ts) = TsCol (filter (\<lambda>t. t \<noteq> None) ts)"
| "dropna (NumCol xs) = NumCol (filter (\<lambda>x. x \<noteq> NaN) xs)"

section \<open>normalize_from_first\<close>

text \<open>
  \<^verbatim>\<open>(df[c] / base - 1.0) * 100.0\<close> with \<^verbatim>\<open>base = s.iloc[0]\<close>, \<open>s\<close> being the column
  without its missing values (not empty here).  Dividing text or timestamps raises
  \<^verbatim>\<open>TypeError\<close>.
\<close>

fun rebase :: "column \<Rightarrow> column \<Rightarrow> error + column" where
  "rebase (NumCol xs) (NumCol (base # rest)) = Inr (NumCol (map (pct_change base) xs))"
| "rebase col s = Inl TypeError"

text \<open>\<^verbatim>\<open>out[c] = pd.NA\<close>: a column of missing values, one per row of \<open>out\<close>.\<close>

definition na_column :: "nat \<Rightarrow> column" where
  "na_column n = NumCol (replicate n NaN)"

fun normalize_loop :: "frame \<Rightarrow> string list \<Rightarrow> frame \<Rightarrow> error + frame" where
  "normalize_loop df [] out = Inr out"
| "normalize_loop df (c # cols) out =
     (case getitem df c of
        Inl e \<Rightarrow> Inl e
      | Inr col \<Rightarrow>
          (let s = dropna col
           in if col_len s = 0
              then normalize_loop df cols (setitem out c (na_column (nrows out)))
              else (case rebase col s of
                      Inl e \<Rightarrow> Inl e
                    | Inr col' \<Rightarrow> normalize_loop df cols (setitem out c col'))))"

definition normalize_from_first :: "frame \<Rightarrow> string list \<Rightarrow> error + frame" where
  "normalize_from_first df cols =
     (case getitems df [''Date''] of
        Inl e \<Rightarrow> Inl e
      | Inr out \<Rightarrow> normalize_loop df cols out)"

section \<open>Tidy tables\<close>

text \<open>
  What \<^verbatim>\<open>tidy_df\<close> returns, and what \<^verbatim>\<open>filter_period\<close> keeps: distinct column names, one
  datetime column \<open>Date\<close> without \<^verbatim>\<open>NaT\<close> in ascending order, every other column float64,
  all columns of one length.
\<close>

fun is_num :: "column \<Rightarrow> bool" where
  "is_num (NumCol xs) = True"
| "is_num col = False"

definition dates_ok :: "frame \<Rightarrow> bool" where
  "dates_ok df =
     (case map_of df ''Date'' of
        Some (TsCol ts) \<Rightarrow> list_all (\<lambda>t. t \<noteq> None) ts \<and> sorted (map the ts)
      | _ \<Rightarrow> False)"

definition is_tidy :: "frame \<Rightarrow> bool" where
  "is_tidy df =
     (distinct (columns df) \<and> dates_ok df \<and>
      list_all (\<lambda>p. (fst p = ''Date'' \<or> is_num (snd p)) \<and> col_len (snd p) = nrows df) df)"

text \<open>The selectable series: the float64 columns of the frame.\<close>

definition series :: "frame \<Rightarrow> string list" where
  "series df = map fst (filter (\<lambda>p. is_num (snd p)) df)"

section \<open>Row selection\<close>

text \<open>\<^verbatim>\<open>df.loc[mask]\<close> keeps the rows whose msk entry is true, in order.\<close>

definition select :: "bool list \<Rightarrow> 'a list \<Rightarrow> 'a list" where
  "select msk xs = map snd (filter fst (zip msk xs))"

fun loc_col :: "bool list \<Rightarrow> column \<Rightarrow> column" where
  "loc_col msk (StrCol xs) = StrCol (select msk xs)"
| "loc_col msk (TsCol ts) = TsCol (select msk ts)"
| "loc_col msk (NumCol xs) = NumCol (select msk xs)"

definition loc :: "frame \<Rightarrow> bool list \<Rightarrow> frame" where
  "loc df msk = map (\<lambda>p. (fst p, loc_col msk (snd p))) df"

text \<open>Positional selection: the rows at the given positions, in the given order.\<close>

fun take_col :: "nat list \<Rightarrow> column \<Rightarrow> column" where
  "take_col idx (StrCol xs) = StrCol (map (nth xs) idx)"
| "take_col idx (TsCol ts) = TsCol (map (nth ts) idx)"
| "take_col idx (NumCol xs) = NumCol (map (nth xs) idx)"

definition take_rows :: "nat list \<Rightarrow> frame \<Rightarrow> frame" where
  "take_rows idx df = map (\<lambda>p. (fst p, take_col idx (snd p))) df"

fun notna :: "column \<Rightarrow> bool list" where
  "notna (StrCol xs) = map (\<lambda>x. True) xs"
| "notna (TsCol ts) = map (\<lambda>t. t \<noteq> None) ts"
| "notna (NumCol xs) = map (\<lambda>x. x \<noteq> NaN) xs"

text \<open>\<^verbatim>\<open>df.empty\<close>: no columns or no rows.\<close>

definition frame_empty :: "frame \<Rightarrow> bool" where
  "frame_empty df = (df = [] \<or> nrows df = 0)"

section \<open>filter_period\<close>

definition is_leap :: "int \<Rightarrow> bool" where
  "is_leap y = (y mod 4 = 0 \<and> (y mod 100 \<noteq> 0 \<or> y mod 400 = 0))"

definition days_in_month :: "int \<Rightarrow> nat \<Rightarrow> nat" where
  "days_in_month y m =
     (if m = 2 then (if is_leap y then 29 else 28)
      else if m = 4 \<or> m = 6 \<or> m = 9 \<or> m = 11 then 30 else 31)"

text \<open>
  \<^verbatim>\<open>t - pd.DateOffset(years=k, months=n)\<close>: the calendar month is moved back, the day is
  cut to the last day of the month reached, the time of day is kept.
\<close>

definition minus_offset :: "timestamp \<Rightarrow> int \<Rightarrow> int \<Rightarrow> timestamp" where
  "minus_offset t years months =
     (case t of (y, m, d, ns) \<Rightarrow>
        let k = (y - years) * 12 + (int m - 1) - months;
            y' = k div 12;
            m' = nat (k mod 12) + 1
        in (y', m', min d (days_in_month y' m'), ns))"

text \<open>\<^verbatim>\<open>pd.Timestamp(end.year, 1, 1)\<close>.\<close>

definition year_start :: "timestamp \<Rightarrow> timestamp" where
  "year_start t = (case t of (y, m, d, ns) \<Rightarrow> (y, 1, 1, 0))"

text \<open>\<^verbatim>\<open>Series.max()\<close> and \<^verbatim>\<open>Series.min()\<close> skip \<^verbatim>\<open>NaT\<close>; with nothing left they give \<^verbatim>\<open>NaT\<close>.\<close>

definition col_max :: "timestamp option list \<Rightarrow> timestamp option" where
  "col_max ts =
     (case filter (\<lambda>t. t \<noteq> None) ts of
        [] \<Rightarrow> None
      | x # xs \<Rightarrow> Some (fold max (map the xs) (the x)))"

definition col_min :: "timestamp option list \<Rightarrow> timestamp option" where
  "col_min ts =
     (case filter (\<lambda>t. t \<noteq> None) ts of
        [] \<Rightarrow> None
      | x # xs \<Rightarrow> Some (fold min (map the xs) (the x)))"

text \<open>\<^verbatim>\<open>Series.between(start, end)\<close>, both ends included; a comparison with \<^verbatim>\<open>NaT\<close> is false.\<close>

fun between :: "timestamp option \<Rightarrow> timestamp option \<Rightarrow> timestamp option \<Rightarrow> bool" where
  "between (Some lo) (Some hi) (Some t) = (lo \<le> t \<and> t \<le> hi)"
| "between lo hi t = False"

text \<open>
  The start of the window.  With \<^verbatim>\<open>end = NaT\<close> (no date at all) the start is \<^verbatim>\<open>NaT\<close> for
  every key, and no row lies in the window.
\<close>

definition period_start ::
  "string \<Rightarrow> timestamp option list \<Rightarrow> timestamp option \<Rightarrow> timestamp option" where
  "period_start period_key ts end_date =
     (if period_key = ''1M'' then map_option (\<lambda>t. minus_offset t 0 1) end_date
      else if period_key = ''3M'' then map_option (\<lambda>t. minus_offset t 0 3) end_date
      else if period_key = ''YTD'' then map_option year_start end_date
      else if period_key = ''1Y'' then map_option (\<lambda>t. minus_offset t 1 0) end_date
      else col_min ts)"

text \<open>
  When \<open>Date\<close> is not a datetime column, subtracting a \<^verbatim>\<open>DateOffset\<close> from its maximum raises
  \<^verbatim>\<open>TypeError\<close>, its maximum has no \<^verbatim>\<open>year\<close>, and between minimum and maximum lie all its
  values that are not missing.
\<close>

definition filter_period :: "frame \<Rightarrow> string \<Rightarrow> error + frame" where
  "filter_period df period_key =
     (if frame_empty df then Inr df
      else case getitem df ''Date'' of
             Inl e \<Rightarrow> Inl e
           | Inr (TsCol ts) \<Rightarrow>
               (let end_date = col_max ts;
                    start = period_start period_key ts end_date
                in Inr (loc df (map (between start end_date) ts)))
           | Inr col \<Rightarrow>
               (if period_key = ''1M'' \<or> period_key = ''3M'' \<or> period_key = ''1Y'' then Inl TypeError
                else if period_key = ''YTD'' then Inl AttributeError
                else Inr (loc df (notna col))))"

section \<open>tidy_df\<close>

subsection \<open>The library operations\<close>

text \<open>
  The conversions and the sort are library code.  They are parameters of the model:
  \<^item> \<open>to_datetime\<close> is \<^verbatim>\<open>pd.to_datetime(col, dayfirst=True, errors="coerce")\<close>, a whole
    column at a time (the format may be inferred from the column);
  \<^item> \<open>to_numeric\<close> is \<^verbatim>\<open>pd.to_numeric(errors="coerce")\<close> on one text, \<open>NaN\<close> when it does
    not parse;
  \<^item> \<open>repr\<close> is \<^verbatim>\<open>astype(str)\<close> on a column that is not text;
  \<^item> \<open>argsort\<close> gives the row positions in the order \<^verbatim>\<open>sort_values\<close> puts them, for the
    default \<^verbatim>\<open>kind="quicksort"\<close>, which the library documents as not stable.
\<close>

record pandas =
  to_datetime :: "column \<Rightarrow> timestamp option list"
  to_numeric :: "string \<Rightarrow> f64"
  repr :: "column \<Rightarrow> string list"
  argsort :: "column \<Rightarrow> nat list"

text \<open>
  What is assumed of them: conversions keep the length of the column, and the sort order is
  a permutation of the row positions along which a datetime column without \<^verbatim>\<open>NaT\<close> ascends.
\<close>

definition pandas_ok :: "pandas \<Rightarrow> bool" where
  "pandas_ok L =
     ((\<forall>col. length (to_datetime L col) = col_len col) \<and>
      (\<forall>col. length (repr L col) = col_len col) \<and>
      (\<forall>ts. distinct (argsort L (TsCol ts)) \<and> set (argsort L (TsCol ts)) = {..<length ts} \<and>
            (None \<notin> set ts \<longrightarrow> sorted (map (\<lambda>i. the (ts ! i)) (argsort L (TsCol ts))))))"

subsection \<open>Text\<close>

text \<open>
  A text is held as the list of its UTF-8 bytes.  Equality of texts, and replacing a space
  or a comma, are the same on the bytes as on the characters.  \<^verbatim>\<open>str.strip()\<close> removes the
  leading and the trailing whitespace characters: U+0009 to U+000D, U+001C to U+0020, U+0085,
  U+00A0, U+1680, U+2000 to U+200A, U+2028, U+2029, U+202F, U+205F and U+3000, listed here
  by their encodings.  \<^verbatim>\<open>str.replace(old, new)\<close> is needed for one-character patterns only.
\<close>

definition whitespace :: "string list" where
  "whitespace =
     [[CHR 0x09], [CHR 0x0A], [CHR 0x0B], [CHR 0x0C], [CHR 0x0D],
      [CHR 0x1C], [CHR 0x1D], [CHR 0x1E], [CHR 0x1F], [CHR 0x20],
      [CHR 0xC2, CHR 0x85], [CHR 0xC2, CHR 0xA0],
      [CHR 0xE1, CHR 0x9A, CHR 0x80],
      [CHR 0xE2, CHR 0x80, CHR 0x80], [CHR 0xE2, CHR 0x80, CHR 0x81],
      [CHR 0xE2, CHR 0x80, CHR 0x82], [CHR 0xE2, CHR 0x80, CHR 0x83],
      [CHR 0xE2, CHR 0x80, CHR 0x84], [CHR 0xE2, CHR 0x80, CHR 0x85],
      [CHR 0xE2, CHR 0x80, CHR 0x86], [CHR 0xE2, CHR 0x80, CHR 0x87],
      [CHR 0xE2, CHR 0x80, CHR 0x88], [CHR 0xE2, CHR 0x80, CHR 0x89],
      [CHR 0xE2, CHR 0x80, CHR 0x8A],
      [CHR 0xE2, CHR 0x80, CHR 0xA8], [CHR 0xE2, CHR 0x80, CHR 0xA9],
      [CHR 0xE2, CHR 0x80, CHR 0xAF], [CHR 0xE2, CHR 0x81, CHR 0x9F],
      [CHR 0xE3, CHR 0x80, CHR 0x80]]"

text \<open>Removing from the front every character whose encoding is in \<open>ws\<close> (one to three bytes).\<close>

fun strip_left :: "string list \<Rightarrow> string \<Rightarrow> string" where
  "strip_left ws [] = []"
| "strip_left ws (c # s) =
     (if [c] \<in> set ws then strip_left ws s
      else if 1 \<le> length s \<and> c # take 1 s \<in> set ws then strip_left ws (drop 1 s)
      else if 2 \<le> length s \<and> c # take 2 s \<in> set ws then strip_left ws (drop 2 s)
      else c # s)"

definition strip :: "string \<Rightarrow> string" where
  "strip s = rev (strip_left (map rev whitespace) (rev (strip_left whitespace s)))"

definition str_replace :: "char \<Rightarrow> string \<Rightarrow> string \<Rightarrow> string" where
  "str_replace old new s = concat (map (\<lambda>c. if c = old then new else [c]) s)"

definition astype_str :: "pandas \<Rightarrow> column \<Rightarrow> string list" where
  "astype_str L col = (case col of StrCol xs \<Rightarrow> xs | _ \<Rightarrow> repr L col)"

subsection \<open>The function\<close>

definition coerce_numbers :: "pandas \<Rightarrow> column \<Rightarrow> column" where
  "coerce_numbers L s =
     NumCol (map (to_numeric L)
       (map (str_replace CHR '','' ''.'') (map (str_replace CHR '' '' []) (astype_str L s))))"

text \<open>
  The loop over \<^verbatim>\<open>df.columns\<close>.  When a label names two columns, \<^verbatim>\<open>df[c]\<close> is a frame, and
  \<^verbatim>\<open>.str\<close> on a frame raises \<^verbatim>\<open>AttributeError\<close>.
\<close>

fun coerce_loop :: "pandas \<Rightarrow> string list \<Rightarrow> frame \<Rightarrow> error + frame" where
  "coerce_loop L [] df = Inr df"
| "coerce_loop L (c # cs) df =
     (if c = ''Date'' then coerce_loop L cs df
      else if 1 < count_list (columns df) c then Inl AttributeError
      else case getitem df c of
             Inl e \<Rightarrow> Inl e
           | Inr col \<Rightarrow> coerce_loop L cs (setitem df c (coerce_numbers L col)))"

definition rename_columns :: "frame \<Rightarrow> frame" where
  "rename_columns df = map (\<lambda>p. (strip (fst p), snd p)) df"

definition dropna_subset :: "frame \<Rightarrow> string \<Rightarrow> error + frame" where
  "dropna_subset df c =
     (case getitem df c of Inl e \<Rightarrow> Inl e | Inr col \<Rightarrow> Inr (loc df (notna col)))"

definition sort_values :: "pandas \<Rightarrow> frame \<Rightarrow> string \<Rightarrow> error + frame" where
  "sort_values L df c =
     (case getitem df c of Inl e \<Rightarrow> Inl e | Inr col \<Rightarrow> Inr (take_rows (argsort L col) df))"

text \<open>
  \<^verbatim>\<open>tidy_df\<close> on the content of the frame.  When two columns are named \<open>Date\<close> after
  stripping, \<^verbatim>\<open>df["Date"]\<close> is a frame and \<^verbatim>\<open>pd.to_datetime\<close> refuses its duplicate labels.
\<close>

definition tidy_df :: "pandas \<Rightarrow> frame \<Rightarrow> error + frame" where
  "tidy_df L df0 =
     (let df = rename_columns df0
      in if ''Date'' \<notin> set (columns df) then Inl SchemaError
         else if 1 < count_list (columns df) ''Date'' then Inl DuplicateKeys
         else case getitem df ''Date'' of
                Inl e \<Rightarrow> Inl e
              | Inr col \<Rightarrow>
                  (let df1 = setitem df ''Date'' (TsCol (to_datetime L col))
                   in case coerce_loop L (columns df1) df1 of
                        Inl e \<Rightarrow> Inl e
                      | Inr df2 \<Rightarrow>
                          (case dropna_subset df2 ''Date'' of
                             Inl e \<Rightarrow> Inl e
                           | Inr df3 \<Rightarrow> sort_values L df3 ''Date'')))"

section \<open>The functions on a store of frames\<close>

text \<open>
  Frames are objects: a variable holds a reference, \<^verbatim>\<open>copy\<close>, \<^verbatim>\<open>df[[...]]\<close>, \<^verbatim>\<open>dropna\<close>,
  \<^verbatim>\<open>sort_values\<close> and \<^verbatim>\<open>df.loc[...]\<close> build new objects, and \<^verbatim>\<open>df.columns = ...\<close> and
  \<^verbatim>\<open>df[c] = ...\<close> change the object they are applied to.  The store lists the frames by
  address; a new object gets the next address.  Each function takes the store and the address
  of its argument and gives back the address of its result (or the error) and the store.
\<close>

type_synonym store = "frame list"

definition alloc :: "store \<Rightarrow> frame \<Rightarrow> nat \<times> store" where
  "alloc st f = (length st, st @ [f])"

fun coerce_loop_st :: "pandas \<Rightarrow> string list \<Rightarrow> store \<Rightarrow> nat \<Rightarrow> (error + unit) \<times> store" where
  "coerce_loop_st L [] st d = (Inr (), st)"
| "coerce_loop_st L (c # cs) st d =
     (if c = ''Date'' then coerce_loop_st L cs st d
      else if 1 < count_list (columns (st ! d)) c then (Inl AttributeError, st)
      else case getitem (st ! d) c of
             Inl e \<Rightarrow> (Inl e, st)
           | Inr col \<Rightarrow>
               coerce_loop_st L cs (st[d := setitem (st ! d) c (coerce_numbers L col)]) d)"

text \<open>
  \<^verbatim>\<open>tidy_df\<close>: \<open>d\<close> is the copy made by \<^verbatim>\<open>df.copy()\<close>, which the renaming and the column
  assignments change in place; \<open>t\<close> is the frame \<^verbatim>\<open>dropna\<close> builds and \<open>s\<close> the one
  \<^verbatim>\<open>sort_values\<close> builds and the function returns.
\<close>

definition tidy_df_st :: "pandas \<Rightarrow> store \<Rightarrow> nat \<Rightarrow> (error + nat) \<times> store" where
  "tidy_df_st L st r =
     (let (d, st1) = alloc st (st ! r);
          st2 = st1[d := rename_columns (st1 ! d)]
      in if ''Date'' \<notin> set (columns (st2 ! d)) then (Inl SchemaError, st2)
         else if 1 < count_list (columns (st2 ! d)) ''Date'' then (Inl DuplicateKeys, st2)
         else case getitem (st2 ! d) ''Date'' of
                Inl e \<Rightarrow> (Inl e, st2)
              | Inr col \<Rightarrow>
                  (let st3 = st2[d := setitem (st2 ! d) ''Date'' (TsCol (to_datetime L col))]
                   in case coerce_loop_st L (columns (st3 ! d)) st3 d of
                        (Inl e, st4) \<Rightarrow> (Inl e, st4)
                      | (Inr u, st4) \<Rightarrow>
                          (case dropna_subset (st4 ! d) ''Date'' of
                             Inl e \<Rightarrow> (Inl e, st4)
                           | Inr df3 \<Rightarrow>
                               (let (t, st5) = alloc st4 df3
                                in case sort_values L (st5 ! t) ''Date'' of
                                     Inl e \<Rightarrow> (Inl e, st5)
                                   | Inr df4 \<Rightarrow>
                                       (let (s, st6) = alloc st5 df4 in (Inr s, st6))))))"

text \<open>
  \<^verbatim>\<open>filter_period\<close>: on an empty frame the argument itself is returned; otherwise the function
  only reads its argument, and \<^verbatim>\<open>df.loc[...]\<close> builds the frame it returns.
\<close>

definition filter_period_st :: "store \<Rightarrow> nat \<Rightarrow> string \<Rightarrow> (error + nat) \<times> store" where
  "filter_period_st st r period_key =
     (if frame_empty (st ! r) then (Inr r, st)
      else case filter_period (st ! r) period_key of
             Inl e \<Rightarrow> (Inl e, st)
           | Inr sel \<Rightarrow> (let (t, st1) = alloc st sel in (Inr t, st1)))"

text \<open>
  \<^verbatim>\<open>normalize_from_first\<close>: \<^verbatim>\<open>df[["Date"]]\<close> builds a frame, \<^verbatim>\<open>.copy()\<close> builds \<open>out\<close>, and
  the loop assigns columns to \<open>out\<close> in place while reading \<open>df\<close>.
\<close>

fun normalize_loop_st :: "store \<Rightarrow> nat \<Rightarrow> string list \<Rightarrow> nat \<Rightarrow> (error + unit) \<times> store" where
  "normalize_loop_st st r [] out = (Inr (), st)"
| "normalize_loop_st st r (c # cols) out =
     (case getitem (st ! r) c of
        Inl e \<Rightarrow> (Inl e, st)
      | Inr col \<Rightarrow>
          (let s = dropna col
           in if col_len s = 0
              then normalize_loop_st
                     (st[out := setitem (st ! out) c (na_column (nrows (st ! out)))]) r cols out
              else (case rebase col s of
                      Inl e \<Rightarrow> (Inl e, st)
                    | Inr col' \<Rightarrow>
                        normalize_loop_st (st[out := setitem (st ! out) c col']) r cols out)))"

definition normalize_from_first_st ::
  "store \<Rightarrow> nat \<Rightarrow> string list \<Rightarrow> (error + nat) \<times> store" where
  "normalize_from_first_st st r cols =
     (case getitems (st ! r) [''Date''] of
        Inl e \<Rightarrow> (Inl e, st)
      | Inr sel \<Rightarrow>
          (let (t, st1) = alloc st sel;
               (out, st2) = alloc st1 (st1 ! t)
           in case normalize_loop_st st2 r cols out of
                (Inl e, st3) \<Rightarrow> (Inl e, st3)
              | (Inr u, st3) \<Rightarrow> (Inr out, st3)))"

text \<open>Filtering, then rebasing the filtered frame, as the page does on every interaction.\<close>

definition filter_then_rebase_st ::
  "store \<Rightarrow> nat \<Rightarrow> string \<Rightarrow> string list \<Rightarrow> (error + nat) \<times> store" where
  "filter_then_rebase_st st r period_key cols =
     (case filter_period_st st r period_key of
        (Inl e, st1) \<Rightarrow> (Inl e, st1)
      | (Inr dff, st1) \<Rightarrow> normalize_from_first_st st1 dff cols)"

text \<open>The frame a call returned, read from the store it left.\<close>

definition content :: "(error + nat) \<times> store \<Rightarrow> error + frame" where
  "content res = (case fst res of Inl e \<Rightarrow> Inl e | Inr a \<Rightarrow> Inr (snd res ! a))"

definition empty_df :: frame where
  "empty_df = [(''Date'', TsCol []), (''Fund'', NumCol [])]"

section \<open>Helper definitions for the statements\<close>

definition dates :: "frame \<Rightarrow> timestamp list" where
  "dates df = (case map_of df ''Date'' of Some (TsCol ts) \<Rightarrow> map the ts | _ \<Rightarrow> [])"

definition example_df :: frame where
  "example_df =
     [(''Date'', TsCol [Some (2024, 1, 2, 0), Some (2024, 1, 3, 0), Some (2024, 1, 4, 0)]),
      (''Fund'', NumCol [Fin 100, Fin 110, Fin 90]),
      (''Index'', NumCol [NaN, NaN, NaN]),
      (''Flat'', NumCol [NaN, Fin 0, Fin 5])]"

definition rebased :: "nat \<Rightarrow> f64 list \<Rightarrow> f64 list" where
  "rebased n xs = (case List.find (\<lambda>x. x \<noteq> NaN) xs of
      None \<Rightarrow> replicate n NaN | Some b \<Rightarrow> map (pct_change b) xs)"

definition num_cells :: "frame \<Rightarrow> string \<Rightarrow> f64 list" where
  "num_cells df c = (case map_of df c of Some (NumCol xs) \<Rightarrow> xs | _ \<Rightarrow> [])"

definition rect :: "frame \<Rightarrow> bool" where
  "rect df = list_all (\<lambda>p. col_len (snd p) = nrows df) df"

definition converted :: "pandas \<Rightarrow> frame \<Rightarrow> frame" where
  "converted L df =
     map (\<lambda>p. (strip (fst p),
               if strip (fst p) = ''Date'' then TsCol (to_datetime L (snd p))
               else coerce_numbers L (snd p))) df"

definition parsed_dates :: "pandas \<Rightarrow> frame \<Rightarrow> timestamp option list" where
  "parsed_dates L df =
     (case map_of (rename_columns df) ''Date'' of Some col \<Rightarrow> to_datetime L col | None \<Rightarrow> [])"

definition is_digit :: "char \<Rightarrow> bool" where
  "is_digit c = (48 \<le> (of_char c :: nat) \<and> (of_char c :: nat) \<le> 57)"

definition digits_val :: "string \<Rightarrow> nat" where
  "digits_val s = foldl (\<lambda>n c. 10 * n + (of_char c - 48)) 0 s"

definition parse_decimal :: "string \<Rightarrow> f64" where
  "parse_decimal s =
     (let neg = (s \<noteq> [] \<and> hd s = CHR ''-'');
          body = (if s \<noteq> [] \<and> (hd s = CHR ''-'' \<or> hd s = CHR ''+'') then tl s else s);
          ip = takeWhile (\<lambda>c. c \<noteq> CHR ''.'') body;
          fp = drop 1 (dropWhile (\<lambda>c. c \<noteq> CHR ''.'') body)
      in if (ip = [] \<and> fp = []) \<or> \<not> list_all is_digit ip \<or> \<not> list_all is_digit fp then NaN
         else let v = of_nat (digits_val ip) + of_nat (digits_val fp) / 10 ^ length fp
              in if v = 0 then signed_zero neg else round64 (if neg then - v else v))"

definition parse_dmy :: "string \<Rightarrow> timestamp option" where
  "parse_dmy s =
     (if length s = 10 \<and> s ! 2 = CHR ''.'' \<and> s ! 5 = CHR ''.'' \<and>
         list_all is_digit (take 2 s) \<and> list_all is_digit (take 2 (drop 3 s)) \<and>
         list_all is_digit (drop 6 s)
      then let d = digits_val (take 2 s);
               m = digits_val (take 2 (drop 3 s));
               y = int (digits_val (drop 6 s))
           in if 1 \<le> m \<and> m \<le> 12 \<and> 1 \<le> d \<and> d \<le> days_in_month y m
              then Some (y, m, d, 0) else None
      else None)"

definition na_last :: "timestamp option \<Rightarrow> nat \<times> timestamp" where
  "na_last t = (case t of None \<Rightarrow> (1, (0, 0, 0, 0)) | Some x \<Rightarrow> (0, x))"

definition demo_pandas :: pandas where
  "demo_pandas =
     \<lparr> to_datetime = (\<lambda>col. case col of StrCol xs \<Rightarrow> map parse_dmy xs | TsCol ts \<Rightarrow> ts
                                | NumCol xs \<Rightarrow> map (\<lambda>x. None) xs),
       to_numeric = parse_decimal,
       repr = (\<lambda>col. replicate (col_len col) ''nan''),
       argsort = (\<lambda>col. case col of
                     TsCol ts \<Rightarrow> sort_key (\<lambda>i. na_last (ts ! i)) [0..<length ts]
                   | _ \<Rightarrow> [0..<col_len col]) \<rparr>"

definition raw_df :: frame where
  "raw_df =
     [('' Date'', StrCol [''03.01.2024'', ''n/a'', ''02.01.2024'', ''02.01.2024'']),
      (''Fund '', StrCol [''x'', ''7'', ''5'', ''100''])]"

definition period_df :: frame where
  "period_df =
     [(''Date'', TsCol [Some (2023, 2, 28, 0), Some (2023, 12, 31, 0), Some (2024, 1, 1, 0),
                       Some (2024, 1, 31, 0), Some (2024, 2, 29, 0)]),
      (''Fund'', NumCol [Fin 1, Fin 2, Fin 3, Fin 4, Fin 5])]"

definition no_date_df :: frame where
  "no_date_df = [(''Day'', StrCol [''03.01.2024'']), (''Fund'', StrCol [''1''])]"

definition zero_df :: frame where
  "zero_df =
     [(''Date'', TsCol [Some (2024, 1, 2, 0), Some (2024, 1, 3, 0), Some (2024, 1, 4, 0)]),
      (''Flat'', NumCol [NZero, Fin 5, Fin (- 5)])]"

definition padded_date :: string where
  "padded_date =
     [CHR 0x09, CHR 0x20] @ ''Date'' @
     [CHR 0xC2, CHR 0x85, CHR 0xC2, CHR 0xA0, CHR 0xE3, CHR 0x80, CHR 0x80]"

definition date_nel :: string where
  "date_nel = ''Date'' @ [CHR 0xC2, CHR 0x85]"

definition padded_df :: frame where
  "padded_df =
     [(padded_date, StrCol [''03.01.2024'', ''n/a'']),
      (''Fund'', StrCol [''5'', ''7''])]"

definition inner_space_df :: frame where
  "inner_space_df = [(''Da te'', StrCol [''03.01.2024'']), (''Fund'', StrCol [''5''])]"

definition dup_df :: frame where
  "dup_df =
     [(''Date'', StrCol [''03.01.2024'']),
      (date_nel, StrCol [''04.01.2024'']),
      (''Fund'', StrCol [''5''])]"

section \<open>Frames\<close>

lemma map_of_replace:
  "map_of (map (\<lambda>p. if fst p = c then (c, col) else p) xs) k
     = (if k = c \<and> c \<in> fst ` set xs then Some col else map_of xs k)"
  by (induction xs) (auto simp: rev_image_eqI)

lemma map_of_setitem:
  "map_of (setitem df c col) k = (if k = c then Some col else map_of df k)"
proof (cases "c \<in> set (columns df)")
  case True
  then show ?thesis by (simp add: setitem_def columns_def map_of_replace)
next
  case False
  then have "map_of df c = None"
    by (simp add: columns_def map_of_eq_None_iff)
  with False show ?thesis
    by (auto simp: setitem_def map_add_def split: option.splits)
qed

lemma setitem_Cons_other:
  "c \<noteq> d \<Longrightarrow> setitem ((d, dc) # rest) c col = (d, dc) # setitem rest c col"
  by (simp add: setitem_def columns_def)

lemma setitem_present:
  assumes "distinct (map fst df)" and "map_of df c = Some col"
  shows "setitem df c v = map (\<lambda>p. if fst p = c then (c, v) else p) df"
proof -
  from assms(2) have "c \<in> set (columns df)"
    by (auto simp: columns_def dest!: map_of_SomeD intro: rev_image_eqI)
  then show ?thesis by (simp add: setitem_def)
qed

lemma columns_replace [simp]:
  "columns (map (\<lambda>p. if fst p = c then (c, v) else p) df) = columns df"
  by (induction df) (auto simp: columns_def)

lemma filter_fst_distinct:
  "distinct (map fst df) \<Longrightarrow> map_of df c = Some col \<Longrightarrow> filter (\<lambda>p. fst p = c) df = [(c, col)]"
proof (induction df)
  case Nil
  then show ?case by simp
next
  case (Cons p df)
  show ?case
  proof (cases "fst p = c")
    case True
    with Cons.prems have "c \<notin> fst ` set df" by auto
    then have "filter (\<lambda>p. fst p = c) df = []"
      unfolding filter_empty_conv by (metis imageI)
    with True Cons.prems show ?thesis by (cases p) auto
  next
    case False
    with Cons show ?thesis by (cases p) auto
  qed
qed

lemma distinct_count_le:
  "distinct xs \<Longrightarrow> \<not> 1 < count_list xs x"
  by (induction xs) (auto simp: count_list_0_iff)

lemma map_of_map2:
  "map_of (map (\<lambda>p. (fst p, f (fst p) (snd p))) df) c = map_option (f c) (map_of df c)"
  by (induction df) auto

lemma map_of_map_snd:
  "map_of (map (\<lambda>p. (fst p, f (snd p))) df) c = map_option f (map_of df c)"
  by (induction df) auto

lemma select_Cons:
  "select (b # m) (x # xs) = (if b then x # select m xs else select m xs)"
  by (simp add: select_def)

lemma select_nth:
  "length m = length xs \<Longrightarrow> select m xs = map (nth xs) (filter (\<lambda>i. m ! i) [0..<length xs])"
proof (induction xs arbitrary: m)
  case Nil
  then show ?case by (simp add: select_def)
next
  case (Cons x xs)
  then obtain b m' where m: "m = b # m'" "length m' = length xs"
    by (cases m) auto
  have "[0..<length (x # xs)] = 0 # map Suc [0..<length xs]"
    by (simp add: upt_conv_Cons map_Suc_upt del: upt_Suc)
  then show ?case
    using Cons.IH [OF m(2)] m
    by (simp add: select_Cons filter_map comp_def del: upt_Suc)
qed

lemma loc_col_take:
  "length m = col_len col \<Longrightarrow> loc_col m col = take_col (filter (\<lambda>i. m ! i) [0..<length m]) col"
  by (cases col) (simp_all add: select_nth)

lemma loc_take_rows:
  assumes "\<forall>p\<in>set df. col_len (snd p) = length m"
  shows "loc df m = take_rows (filter (\<lambda>i. m ! i) [0..<length m]) df"
  using assms by (simp add: loc_def take_rows_def loc_col_take)

lemma take_col_take_col:
  assumes "\<forall>j\<in>set idx. j < length kept"
  shows "take_col idx (take_col kept col) = take_col (map (nth kept) idx) col"
  using assms by (cases col) simp_all

lemma take_rows_take_rows:
  assumes "\<forall>j\<in>set idx. j < length kept"
  shows "take_rows idx (take_rows kept df) = take_rows (map (nth kept) idx) df"
  using assms by (simp add: take_rows_def take_col_take_col)

lemma tidy_dates:
  assumes "is_tidy df"
  obtains ts where "map_of df ''Date'' = Some (TsCol ts)" "None \<notin> set ts"
    "sorted (map the ts)" "length ts = nrows df"
proof -
  from assms have d: "dates_ok df" and
    la: "list_all (\<lambda>p. (fst p = ''Date'' \<or> is_num (snd p)) \<and> col_len (snd p) = nrows df) df"
    by (simp_all add: is_tidy_def)
  from d obtain ts where ts: "map_of df ''Date'' = Some (TsCol ts)"
    and ok: "list_all (\<lambda>t. t \<noteq> None) ts" "sorted (map the ts)"
    by (auto simp: dates_ok_def split: option.splits column.splits)
  from ts have "(''Date'', TsCol ts) \<in> set df" by (rule map_of_SomeD)
  with la have "length ts = nrows df" by (auto simp: list_all_iff)
  moreover from ok have "None \<notin> set ts" by (auto simp: list_all_iff)
  ultimately show ?thesis using that ts ok by blast
qed

lemma tidy_col_len: "is_tidy df \<Longrightarrow> p \<in> set df \<Longrightarrow> col_len (snd p) = nrows df"
  by (auto simp: is_tidy_def list_all_iff)

lemma series_num:
  "c \<in> set (series df) \<Longrightarrow> distinct (columns df) \<Longrightarrow> \<exists>xs. map_of df c = Some (NumCol xs)"
proof -
  assume "c \<in> set (series df)" and dist: "distinct (columns df)"
  then obtain col where "(c, col) \<in> set df" "is_num col"
    by (auto simp: series_def)
  then obtain xs where "(c, NumCol xs) \<in> set df" by (cases col) auto
  with dist show ?thesis by (auto simp: columns_def)
qed

lemma rect_len: "rect df \<Longrightarrow> p \<in> set df \<Longrightarrow> col_len (snd p) = nrows df"
  by (auto simp: rect_def list_all_iff)

lemma kept_props:
  "distinct (filter P [0..<n])" "set (filter P [0..<n]) = {i. i < n \<and> P i}"
  by auto

lemma fold_max_Max: "fold max xs (x::'a::linorder) = Max (set (x # xs))"
  using Max.set_eq_fold [of x xs] by simp

lemma fold_min_Min: "fold min xs (x::'a::linorder) = Min (set (x # xs))"
  using Min.set_eq_fold [of x xs] by simp

lemma col_max_tidy:
  assumes "None \<notin> set ts" and "ts \<noteq> []"
  shows "col_max ts = Some (Max (set (map the ts)))"
proof -
  have "x \<noteq> None" if "x \<in> set ts" for x
    using that assms(1) by metis
  then have "filter (\<lambda>t. t \<noteq> None) ts = ts"
    by (intro filter_True ballI)
  with assms(2) show ?thesis
    by (cases ts) (simp_all add: col_max_def fold_max_Max)
qed

lemma col_min_tidy:
  assumes "None \<notin> set ts" and "ts \<noteq> []"
  shows "col_min ts = Some (Min (set (map the ts)))"
proof -
  have "x \<noteq> None" if "x \<in> set ts" for x
    using that assms(1) by metis
  then have "filter (\<lambda>t. t \<noteq> None) ts = ts"
    by (intro filter_True ballI)
  with assms(2) show ?thesis
    by (cases ts) (simp_all add: col_min_def fold_min_Min)
qed

section \<open>The example instance of the library operations\<close>

lemma sorted_na_last:
  assumes "sorted (map (\<lambda>i. na_last (ts ! i)) idx)" and "\<forall>i\<in>set idx. ts ! i \<noteq> None"
  shows "sorted (map (\<lambda>i. the (ts ! i)) idx)"
proof -
  have "sorted_wrt (\<lambda>i j. na_last (ts ! i) \<le> na_last (ts ! j)) idx"
    using assms(1) by (simp add: sorted_map)
  then have "sorted_wrt (\<lambda>i j. the (ts ! i) \<le> the (ts ! j)) idx"
  proof (rule sorted_wrt_mono_rel [rotated])
    fix i j assume ij: "i \<in> set idx" "j \<in> set idx" "na_last (ts ! i) \<le> na_last (ts ! j)"
    with assms(2) obtain a b where "ts ! i = Some a" "ts ! j = Some b"
      by (meson not_None_eq)
    with ij(3) show "the (ts ! i) \<le> the (ts ! j)"
      by (simp add: na_last_def)
  qed
  then show ?thesis by (simp add: sorted_map)
qed

lemma argsort_ok:
  assumes "set xs = {..<length ts}" and "distinct xs"
  shows "distinct (sort_key (\<lambda>i. na_last (ts ! i)) xs) \<and>
         set (sort_key (\<lambda>i. na_last (ts ! i)) xs) = {..<length ts} \<and>
         (None \<notin> set ts \<longrightarrow> sorted (map (\<lambda>i. the (ts ! i)) (sort_key (\<lambda>i. na_last (ts ! i)) xs)))"
proof -
  have "sorted (map (\<lambda>i. the (ts ! i)) (sort_key (\<lambda>i. na_last (ts ! i)) xs))" if "None \<notin> set ts"
  proof (rule sorted_na_last)
    show "sorted (map (\<lambda>i. na_last (ts ! i)) (sort_key (\<lambda>i. na_last (ts ! i)) xs))"
      by (rule sorted_sort_key)
    show "\<forall>i\<in>set (sort_key (\<lambda>i. na_last (ts ! i)) xs). ts ! i \<noteq> None"
      using that assms(1) by (metis lessThan_iff nth_mem set_sort)
  qed
  with assms show ?thesis by simp
qed

lemma demo_pandas_ok: "pandas_ok demo_pandas"
proof -
  have "length (to_datetime demo_pandas col) = col_len col" for col
    by (cases col) (simp_all add: demo_pandas_def)
  moreover have "length (repr demo_pandas col) = col_len col" for col
    by (simp add: demo_pandas_def)
  moreover have "argsort demo_pandas (TsCol ts) = sort_key (\<lambda>i. na_last (ts ! i)) [0..<length ts]" for ts
    by (simp add: demo_pandas_def)
  ultimately show ?thesis
    unfolding pandas_ok_def using argsort_ok [of "[0..<length ts]" ts for ts]
    by (simp add: atLeast0LessThan)
qed

lemma round64_small:
  "round64 5 = Fin 5" "round64 7 = Fin 7" "round64 100 = Fin 100"
  by code_simp+

lemma round64_example: "round64 (30864 / 25) = Fin (2714826150374277 / 2199023255552)"
  by code_simp

lemma parse_decimal_examples:
  "parse_decimal ''1234.56'' = Fin (2714826150374277 / 2199023255552)"
  "parse_decimal ''n/a'' = NaN"
  by (simp_all add: parse_decimal_def is_digit_def digits_val_def Let_def round64_example)

lemmas eval_defs = tidy_df_def Let_def rename_columns_def columns_def strip_def whitespace_def
  getitem_def setitem_def coerce_numbers_def astype_str_def str_replace_def demo_pandas_def parse_dmy_def parse_decimal_def is_digit_def digits_val_def
  days_in_month_def is_leap_def dropna_subset_def loc_def select_def sort_values_def
  take_rows_def na_last_def sort_key_def converted_def parsed_dates_def round64_small

lemma strip_examples:
  "strip padded_date = ''Date''"
  "strip date_nel = ''Date''"
  "strip ''Da te'' = ''Da te''"
  "strip '' Date'' = ''Date''"
  "strip ''Fund '' = ''Fund''"
  "strip ''Fund'' = ''Fund''"
  "strip ''Date'' = ''Date''"
  "strip ''Day'' = ''Day''"
  by code_simp+

section \<open>Properties of normalize_from_first\<close>

lemma find_filter_hd:
  "List.find P xs = (case filter P xs of [] \<Rightarrow> None | y # ys \<Rightarrow> Some y)"
  by (induction xs) auto

lemma normalize_step_num:
  assumes "map_of df c = Some (NumCol xs)"
  shows "normalize_loop df (c # cols) out =
         normalize_loop df cols (setitem out c (NumCol (rebased (nrows out) xs)))"
  using assms
  by (cases "filter (\<lambda>x. x \<noteq> NaN) xs")
     (simp_all add: getitem_def rebased_def na_column_def find_filter_hd)

lemma normalize_loop_ok:
  assumes "\<forall>c\<in>set cols. c \<noteq> d \<and> (\<exists>xs. map_of df c = Some (NumCol xs))"
  shows "\<exists>rest'. normalize_loop df cols ((d, dc) # rest) = Inr ((d, dc) # rest') \<and>
           (\<forall>k. map_of rest' k =
              (if k \<in> set cols then Some (NumCol (rebased (col_len dc) (num_cells df k)))
               else map_of rest k))"
  using assms
proof (induction cols arbitrary: rest)
  case Nil
  then show ?case by simp
next
  case (Cons c cols)
  then obtain xs where xs: "map_of df c = Some (NumCol xs)" and cd: "c \<noteq> d"
    by auto
  let ?rest = "setitem rest c (NumCol (rebased (col_len dc) xs))"
  from Cons.prems have "\<forall>c\<in>set cols. c \<noteq> d \<and> (\<exists>xs. map_of df c = Some (NumCol xs))"
    by simp
  from Cons.IH [OF this, of ?rest] obtain rest' where
    r: "normalize_loop df cols ((d, dc) # ?rest) = Inr ((d, dc) # rest')"
    and m: "\<forall>k. map_of rest' k =
              (if k \<in> set cols then Some (NumCol (rebased (col_len dc) (num_cells df k)))
               else map_of ?rest k)"
    by blast
  have step: "normalize_loop df (c # cols) ((d, dc) # rest) = Inr ((d, dc) # rest')"
    unfolding normalize_step_num [OF xs] using r cd by (simp add: nrows_def setitem_Cons_other)
  have "map_of rest' k =
          (if k \<in> set (c # cols) then Some (NumCol (rebased (col_len dc) (num_cells df k)))
           else map_of rest k)" for k
    using m xs by (simp add: map_of_setitem num_cells_def)
  with step show ?case by blast
qed

lemma normalize_tidy:
  assumes "is_tidy df" and "set cols \<subseteq> set (series df)"
  shows "\<exists>dc rest. normalize_from_first df cols = Inr ((''Date'', dc) # rest) \<and>
           col_len dc = nrows df \<and> map_of df ''Date'' = Some dc \<and>
           (\<forall>k. map_of rest k =
              (if k \<in> set cols then Some (NumCol (rebased (nrows df) (num_cells df k)))
               else None))"
proof -
  from assms(1) obtain ts where ts: "map_of df ''Date'' = Some (TsCol ts)" "length ts = nrows df"
    by (rule tidy_dates)
  from assms(1) have dist: "distinct (columns df)" by (simp add: is_tidy_def)
  have "''Date'' \<in> set (columns df)"
    using ts(1) by (auto simp: columns_def dest: map_of_SomeD intro: rev_image_eqI)
  then have g: "getitems df [''Date''] = Inr [(''Date'', TsCol ts)]"
    using filter_fst_distinct [OF dist [unfolded columns_def] ts(1)]
    by (simp add: getitems_def)
  have "\<forall>c\<in>set cols. c \<noteq> ''Date'' \<and> (\<exists>xs. map_of df c = Some (NumCol xs))"
  proof
    fix c assume "c \<in> set cols"
    with assms(2) have "c \<in> set (series df)" by blast
    from series_num [OF this dist] obtain xs where "map_of df c = Some (NumCol xs)" ..
    with ts(1) show "c \<noteq> ''Date'' \<and> (\<exists>xs. map_of df c = Some (NumCol xs))" by auto
  qed
  from normalize_loop_ok [OF this, of "TsCol ts" "[]"] ts g show ?thesis
    by (auto simp: normalize_from_first_def)
qed

lemma pct_change_examples:
  "pct_change (Fin 100) (Fin 100) = Fin 0"
  "pct_change (Fin 100) (Fin 110) = Fin (5629499534213125 / 562949953421312)"
  "pct_change (Fin 100) (Fin 90) = Fin (- (5629499534213119 / 562949953421312))"
  by code_simp+

lemma example_df_tidy: "is_tidy example_df"
  by code_simp

lemma zero_df_tidy: "is_tidy zero_df"
  by code_simp

lemma example_run:
  "normalize_from_first example_df [''Fund''] =
     Inr [(''Date'', TsCol [Some (2024, 1, 2, 0), Some (2024, 1, 3, 0), Some (2024, 1, 4, 0)]),
          (''Fund'', NumCol [Fin 0, Fin (5629499534213125 / 562949953421312),
                            Fin (- (5629499534213119 / 562949953421312))])]"
  by (simp add: normalize_from_first_def example_df_def getitems_def getitem_def columns_def
      setitem_def nrows_def pct_change_examples)

lemma pct_change_NaN: "pct_change base NaN = NaN"
  by (simp add: pct_change_def)

lemma pct_change_zero_base:
  "base = Fin 0 \<or> base = NZero \<Longrightarrow>
   pct_change base v = PInf \<or> pct_change base v = NInf \<or> pct_change base v = NaN"
  by (cases v) (auto simp: pct_change_def signed_inf_def)

lemma normalize_loop_append:
  "normalize_loop df (pre @ post) out =
     (case normalize_loop df pre out of Inl e \<Rightarrow> Inl e | Inr out' \<Rightarrow> normalize_loop df post out')"
  by (induction pre arbitrary: out) (auto simp: Let_def split: sum.splits)

text \<open>
  C3 (as amended).  On a tidy table, when every selected name is one of its float64 series,
  \<^verbatim>\<open>normalize_from_first\<close> returns; for a selected column with a non-missing cell,
  \<open>base\<close> is its first non-missing cell, which is also the non-missing cell of the earliest
  date, and the output column holds \<open>(v / base - 1) * 100\<close> in float64 arithmetic for every
  cell \<open>v\<close>, a missing cell giving a missing cell; the output has as many rows as the input.
  The column \<open>[100, 110, 90]\<close> gives \<open>[0, 10 + 5 / 2^49, -(10 - 1 / 2^49)]\<close>, which
  Python prints as \<open>[0.0, 10.000000000000009, -9.999999999999998]\<close>.
\<close>

theorem normalize_from_first_rebases:
  assumes "is_tidy df" and "set cols \<subseteq> set (series df)" and "c \<in> set cols"
    and "map_of df c = Some (NumCol xs)" and "List.find (\<lambda>x. x \<noteq> NaN) xs = Some base"
  shows "(\<exists>out. normalize_from_first df cols = Inr out \<and>
            map_of out c = Some (NumCol (map (\<lambda>v. fmul (fsub (fdiv v base) (Fin 1)) (Fin 100)) xs)) \<and>
            nrows out = nrows df) \<and>
         fmul (fsub (fdiv NaN base) (Fin 1)) (Fin 100) = NaN \<and>
         (\<exists>i<length xs. xs ! i = base \<and>
            (\<forall>j<length xs. xs ! j \<noteq> NaN \<longrightarrow> i \<le> j \<and> dates df ! i \<le> dates df ! j)) \<and>
         normalize_from_first example_df [''Fund''] =
           Inr [(''Date'', TsCol [Some (2024, 1, 2, 0), Some (2024, 1, 3, 0), Some (2024, 1, 4, 0)]),
                (''Fund'', NumCol [Fin 0, Fin (10 + 5 / 2 ^ 49), Fin (- (10 - 1 / 2 ^ 49))])]"
proof -
  from assms(1) obtain ts where ts: "map_of df ''Date'' = Some (TsCol ts)"
    "sorted (map the ts)" "length ts = nrows df"
    by (rule tidy_dates)
  from normalize_tidy [OF assms(1,2)] obtain dc rest where
    run: "normalize_from_first df cols = Inr ((''Date'', dc) # rest)"
    and len: "col_len dc = nrows df" and dc: "map_of df ''Date'' = Some dc"
    and m: "\<forall>k. map_of rest k =
              (if k \<in> set cols then Some (NumCol (rebased (nrows df) (num_cells df k))) else None)"
    by blast
  from ts(1) assms(4) have cd: "c \<noteq> ''Date''" by auto
  have "map_of ((''Date'', dc) # rest) c = Some (NumCol (map (pct_change base) xs))"
    using m cd assms(3,4,5) by (simp add: rebased_def num_cells_def)
  moreover have "nrows ((''Date'', dc) # rest) = nrows df"
    using len by (simp add: nrows_def)
  ultimately have A: "\<exists>out. normalize_from_first df cols = Inr out \<and>
            map_of out c = Some (NumCol (map (\<lambda>v. fmul (fsub (fdiv v base) (Fin 1)) (Fin 100)) xs)) \<and>
            nrows out = nrows df"
    using run by (simp add: pct_change_def [abs_def])
  from assms(5) obtain i where i: "i < length xs" "xs ! i \<noteq> NaN" "base = xs ! i"
    "\<forall>j<i. \<not> xs ! j \<noteq> NaN"
    unfolding find_Some_iff by blast
  from assms(1,4) have "length xs = nrows df"
    by (auto simp: is_tidy_def list_all_iff dest!: map_of_SomeD)
  with ts(3) have lx: "length xs = length ts" by simp
  have "i \<le> j \<and> dates df ! i \<le> dates df ! j" if "j < length xs" "xs ! j \<noteq> NaN" for j
  proof -
    from that i(4) have ij: "i \<le> j" by (meson not_le_imp_less)
    then have "map the ts ! i \<le> map the ts ! j"
      using sorted_nth_mono [OF ts(2), of i j] that(1) lx by simp
    with ij ts(1) show ?thesis by (simp add: dates_def)
  qed
  with i have C: "\<exists>i<length xs. xs ! i = base \<and>
            (\<forall>j<length xs. xs ! j \<noteq> NaN \<longrightarrow> i \<le> j \<and> dates df ! i \<le> dates df ! j)"
    by blast
  have E: "normalize_from_first example_df [''Fund''] =
           Inr [(''Date'', TsCol [Some (2024, 1, 2, 0), Some (2024, 1, 3, 0), Some (2024, 1, 4, 0)]),
                (''Fund'', NumCol [Fin 0, Fin (10 + 5 / 2 ^ 49), Fin (- (10 - 1 / 2 ^ 49))])]"
    using example_run by simp
  from A C E show ?thesis by (simp only: simp_thms fmul.simps fsub.simps fdiv.simps)
qed

theorem normalize_from_first_rebases_witness:
  "is_tidy example_df \<and> set [''Fund'', ''Index''] \<subseteq> set (series example_df) \<and>
   ''Fund'' \<in> set [''Fund'', ''Index''] \<and>
   map_of example_df ''Fund'' = Some (NumCol [Fin 100, Fin 110, Fin 90]) \<and>
   List.find (\<lambda>x. x \<noteq> NaN) [Fin 100, Fin 110, Fin 90] = Some (Fin 100) \<and>
   (\<exists>out. normalize_from_first example_df [''Fund'', ''Index''] = Inr out \<and>
      map_of out ''Fund'' =
        Some (NumCol (map (\<lambda>v. fmul (fsub (fdiv v (Fin 100)) (Fin 1)) (Fin 100))
                       [Fin 100, Fin 110, Fin 90])) \<and>
      nrows out = nrows example_df)"
proof -
  have h1: "is_tidy example_df" by (rule example_df_tidy)
  have h2: "set [''Fund'', ''Index''] \<subseteq> set (series example_df)"
    by (simp add: series_def example_df_def)
  have h3: "''Fund'' \<in> set [''Fund'', ''Index'']" by simp
  have h4: "map_of example_df ''Fund'' = Some (NumCol [Fin 100, Fin 110, Fin 90])"
    by (simp add: example_df_def)
  have h5: "List.find (\<lambda>x. x \<noteq> NaN) [Fin 100, Fin 110, Fin 90] = Some (Fin 100)" by simp
  from normalize_from_first_rebases [OF h1 h2 h3 h4 h5] h1 h2 h3 h4 h5 show ?thesis
    by blast
qed

text \<open>
  C3 as stated fails twice.  In float64 the column \<open>[100, 110, 90]\<close> rebases to
  \<open>[0.0, 10.000000000000009, -9.999999999999998]\<close>, since \<open>110 / 100\<close> is rounded to the
  double nearest \<open>1.1\<close> before \<open>1.0\<close> is subtracted; the result is not
  \<open>[0.0, 10.0, -10.0]\<close>.  And a present column with values gets no output at all when
  another selected name is not a column.
\<close>

theorem rebase_example_counterexample:
  "is_tidy example_df \<and>
   normalize_from_first example_df [''Fund''] =
     Inr [(''Date'', TsCol [Some (2024, 1, 2, 0), Some (2024, 1, 3, 0), Some (2024, 1, 4, 0)]),
          (''Fund'', NumCol [Fin 0, Fin (5629499534213125 / 562949953421312),
                            Fin (- (5629499534213119 / 562949953421312))])] \<and>
   [Fin 0, Fin (5629499534213125 / 562949953421312), Fin (- (5629499534213119 / 562949953421312))]
     \<noteq> [Fin 0, Fin 10, Fin (- 10)] \<and>
   normalize_from_first example_df [''Gone'', ''Fund''] = Inl (KeyError ''Gone'')"
proof -
  have "normalize_from_first example_df [''Gone'', ''Fund''] = Inl (KeyError ''Gone'')"
    by (simp add: normalize_from_first_def example_df_def getitems_def getitem_def columns_def)
  then show ?thesis using example_df_tidy example_run by simp
qed

text \<open>
  C10 (as amended).  On a tidy table with every selected name a float64 series, a column
  whose first non-missing cell is a zero of either sign does not stop
  \<^verbatim>\<open>normalize_from_first\<close>: it returns, the output column holds \<open>(v / base - 1) * 100\<close>
  for every cell, and every one of these cells is an infinity or \<open>NaN\<close>.
\<close>

theorem normalize_from_first_zero_base:
  assumes "is_tidy df" and "set cols \<subseteq> set (series df)" and "c \<in> set cols"
    and "map_of df c = Some (NumCol xs)" and "List.find (\<lambda>x. x \<noteq> NaN) xs = Some base"
    and "base = Fin 0 \<or> base = NZero"
  shows "\<exists>out ys. normalize_from_first df cols = Inr out \<and> map_of out c = Some (NumCol ys) \<and>
           ys = map (\<lambda>v. fmul (fsub (fdiv v base) (Fin 1)) (Fin 100)) xs \<and>
           (\<forall>y\<in>set ys. y = PInf \<or> y = NInf \<or> y = NaN)"
proof -
  from assms(1) obtain ts where ts: "map_of df ''Date'' = Some (TsCol ts)"
    by (rule tidy_dates)
  from normalize_tidy [OF assms(1,2)] obtain dc rest where
    run: "normalize_from_first df cols = Inr ((''Date'', dc) # rest)"
    and m: "\<forall>k. map_of rest k =
              (if k \<in> set cols then Some (NumCol (rebased (nrows df) (num_cells df k))) else None)"
    by blast
  from ts assms(4) have cd: "c \<noteq> ''Date''" by auto
  have "map_of ((''Date'', dc) # rest) c = Some (NumCol (map (pct_change base) xs))"
    using m cd assms(3,4,5) by (simp add: rebased_def num_cells_def)
  moreover have "\<forall>y\<in>set (map (pct_change base) xs). y = PInf \<or> y = NInf \<or> y = NaN"
    using pct_change_zero_base [OF assms(6)] by auto
  ultimately show ?thesis
    using run by (simp add: pct_change_def [abs_def])
qed

theorem normalize_from_first_zero_base_witness:
  "is_tidy zero_df \<and> set [''Flat''] \<subseteq> set (series zero_df) \<and> ''Flat'' \<in> set [''Flat''] \<and>
   map_of zero_df ''Flat'' = Some (NumCol [NZero, Fin 5, Fin (- 5)]) \<and>
   List.find (\<lambda>x. x \<noteq> NaN) [NZero, Fin 5, Fin (- 5)] = Some NZero \<and>
   (\<exists>out. normalize_from_first zero_df [''Flat''] = Inr out \<and>
      map_of out ''Flat'' = Some (NumCol [NaN, NInf, PInf]))"
proof -
  have h1: "is_tidy zero_df" by (rule zero_df_tidy)
  have h2: "set [''Flat''] \<subseteq> set (series zero_df)"
    by (simp add: series_def zero_df_def)
  have h3: "''Flat'' \<in> set [''Flat'']" by simp
  have h4: "map_of zero_df ''Flat'' = Some (NumCol [NZero, Fin 5, Fin (- 5)])"
    by (simp add: zero_df_def)
  have h5: "List.find (\<lambda>x. x \<noteq> NaN) [NZero, Fin 5, Fin (- 5)] = Some NZero" by simp
  from normalize_from_first_zero_base [OF h1 h2 h3 h4 h5] h1 h2 h3 h4 h5 show ?thesis
    by (auto simp: signed_inf_def)
qed

text \<open>
  C10 as stated fails: the column \<open>Flat\<close> is present and its first non-missing cell is
  \<open>0\<close>, yet the call raises \<^verbatim>\<open>KeyError\<close> at \<^verbatim>\<open>df[c]\<close> because another selected name is
  not a column.
\<close>

theorem zero_base_counterexample:
  "is_tidy example_df \<and>
   map_of example_df ''Flat'' = Some (NumCol [NaN, Fin 0, Fin 5]) \<and>
   List.find (\<lambda>x. x \<noteq> NaN) [NaN, Fin 0, Fin 5] = Some (Fin 0) \<and>
   normalize_from_first example_df [''Flat'', ''Gone''] = Inl (KeyError ''Gone'')"
proof -
  have "normalize_from_first example_df [''Flat'', ''Gone''] = Inl (KeyError ''Gone'')"
    by (simp add: normalize_from_first_def example_df_def getitems_def getitem_def columns_def
        setitem_def nrows_def)
  moreover have "map_of example_df ''Flat'' = Some (NumCol [NaN, Fin 0, Fin 5])"
    by (simp add: example_df_def)
  ultimately show ?thesis using example_df_tidy by simp
qed

text \<open>
  C1 (as amended).  On a tidy table, when every selected name is one of its float64 series,
  \<^verbatim>\<open>normalize_from_first\<close> returns a table of the same row count, and a selected column
  whose cells are all missing gives an output column that is all missing.  A selected name
  that is not a column of the table raises \<^verbatim>\<open>KeyError\<close>.
\<close>

theorem normalize_from_first_on_series:
  assumes "is_tidy df" and "set cols \<subseteq> set (series df)"
  shows "(\<exists>out. normalize_from_first df cols = Inr out \<and> nrows out = nrows df \<and>
            (\<forall>c\<in>set cols. \<forall>xs. map_of df c = Some (NumCol xs) \<and> (\<forall>x\<in>set xs. x = NaN) \<longrightarrow>
               map_of out c = Some (NumCol (replicate (nrows df) NaN)))) \<and>
         (\<forall>c post. c \<notin> set (columns df) \<longrightarrow>
            normalize_from_first df (cols @ c # post) = Inl (KeyError c))"
proof -
  from assms(1) obtain ts where ts: "map_of df ''Date'' = Some (TsCol ts)"
    by (rule tidy_dates)
  from normalize_tidy [OF assms(1,2)] obtain dc rest where
    run: "normalize_from_first df cols = Inr ((''Date'', dc) # rest)"
    and len: "col_len dc = nrows df"
    and m: "\<forall>k. map_of rest k =
              (if k \<in> set cols then Some (NumCol (rebased (nrows df) (num_cells df k))) else None)"
    by blast
  have "map_of ((''Date'', dc) # rest) c = Some (NumCol (replicate (nrows df) NaN))"
    if "c \<in> set cols" "map_of df c = Some (NumCol xs)" "\<forall>x\<in>set xs. x = NaN" for c xs
  proof -
    from ts that(2) have "c \<noteq> ''Date''" by auto
    moreover from that(3) have "List.find (\<lambda>x. x \<noteq> NaN) xs = None"
      by (simp add: find_None_iff)
    ultimately show ?thesis using m that(1,2) by (simp add: rebased_def num_cells_def)
  qed
  moreover have "nrows ((''Date'', dc) # rest) = nrows df"
    using len by (simp add: nrows_def)
  ultimately have A: "\<exists>out. normalize_from_first df cols = Inr out \<and> nrows out = nrows df \<and>
            (\<forall>c\<in>set cols. \<forall>xs. map_of df c = Some (NumCol xs) \<and> (\<forall>x\<in>set xs. x = NaN) \<longrightarrow>
               map_of out c = Some (NumCol (replicate (nrows df) NaN)))"
    using run by blast
  have "normalize_from_first df (cols @ c # post) = Inl (KeyError c)"
    if "c \<notin> set (columns df)" for c post
  proof -
    from that have "map_of df c = None"
      by (simp add: columns_def map_of_eq_None_iff)
    then have "normalize_loop df (c # post) out = Inl (KeyError c)" for out
      by (simp add: getitem_def)
    with run show ?thesis
      by (auto simp: normalize_from_first_def normalize_loop_append split: sum.splits)
  qed
  with A show ?thesis by blast
qed

theorem normalize_from_first_on_series_witness:
  "is_tidy example_df \<and> set [''Index''] \<subseteq> set (series example_df) \<and>
   (\<exists>out. normalize_from_first example_df [''Index''] = Inr out \<and>
      map_of out ''Index'' = Some (NumCol [NaN, NaN, NaN])) \<and>
   normalize_from_first example_df [''Index'', ''Gone'', ''Fund''] = Inl (KeyError ''Gone'')"
proof -
  have h1: "is_tidy example_df" by (rule example_df_tidy)
  have h2: "set [''Index''] \<subseteq> set (series example_df)"
    by (simp add: series_def example_df_def)
  have h3: "map_of example_df ''Index'' = Some (NumCol [NaN, NaN, NaN])"
    by (simp add: example_df_def)
  have h4: "''Gone'' \<notin> set (columns example_df)"
    by (simp add: columns_def example_df_def)
  have h5: "nrows example_df = 3" by (simp add: nrows_def example_df_def)
  from normalize_from_first_on_series [OF h1 h2] h1 h2 h3 h4 h5 show ?thesis
    by (auto simp: numeral_3_eq_3)
qed

text \<open>
  C1 as stated fails: selecting a name that is not a column raises \<^verbatim>\<open>KeyError\<close> at
  \<^verbatim>\<open>df[c]\<close>; no all-missing column is produced.
\<close>

theorem normalize_from_first_missing_counterexample:
  "is_tidy example_df \<and>
   normalize_from_first example_df [''Fund'', ''Gone''] = Inl (KeyError ''Gone'')"
proof -
  have "normalize_loop example_df [''Gone''] out = Inl (KeyError ''Gone'')" for out
    by (simp add: example_df_def getitem_def)
  then have "normalize_from_first example_df ([''Fund''] @ [''Gone'']) = Inl (KeyError ''Gone'')"
    using example_run unfolding normalize_from_first_def normalize_loop_append
    by (auto split: sum.splits)
  then show ?thesis using example_df_tidy by simp
qed

section \<open>Properties of filter_period\<close>

lemma period_df_tidy: "is_tidy period_df"
  by code_simp

lemma period_examples:
  "filter_period period_df ''1M'' = Inr (take_rows [3, 4] period_df)"
  "filter_period period_df ''3M'' = Inr (take_rows [1, 2, 3, 4] period_df)"
  "filter_period period_df ''YTD'' = Inr (take_rows [2, 3, 4] period_df)"
  "filter_period period_df ''1Y'' = Inr period_df"
  "filter_period period_df ''MAX'' = Inr period_df"
  "filter_period period_df ''5Y'' = Inr period_df"
  "minus_offset (2024, 3, 31, 0) 0 1 = (2024, 2, 29, 0)"
  "minus_offset (2024, 1, 31, 0) 0 3 = (2023, 10, 31, 0)"
  "minus_offset (2024, 2, 29, 0) 1 0 = (2023, 2, 28, 0)"
  by code_simp+

text \<open>
  C4.  On a tidy table \<^verbatim>\<open>filter_period\<close> returns, for every key.  A table without rows is
  returned as it is.  Otherwise the result holds exactly the rows, in their order, whose
  date lies between \<open>start\<close> and \<open>end\<close>, both included, where \<open>end\<close> is the latest date of
  the table and \<open>start\<close> is \<open>end\<close> less one calendar month (\<open>1M\<close>), less three calendar
  months (\<open>3M\<close>), the first of January of the year of \<open>end\<close> (\<open>YTD\<close>), \<open>end\<close> less one
  calendar year (\<open>1Y\<close>), and the earliest date of the table for any other key.
\<close>

theorem filter_period_window:
  assumes "is_tidy df"
  shows "\<exists>out. filter_period df period_key = Inr out \<and>
           (nrows df = 0 \<longrightarrow> out = df) \<and>
           (0 < nrows df \<longrightarrow>
              (let end_date = Max (set (dates df));
                   start = (if period_key = ''1M'' then minus_offset end_date 0 1
                            else if period_key = ''3M'' then minus_offset end_date 0 3
                            else if period_key = ''YTD'' then (fst end_date, 1, 1, 0)
                            else if period_key = ''1Y'' then minus_offset end_date 1 0
                            else Min (set (dates df)))
               in out = take_rows
                          (filter (\<lambda>i. start \<le> dates df ! i \<and> dates df ! i \<le> end_date)
                             [0..<nrows df]) df))"
proof (cases "nrows df = 0")
  case True
  then show ?thesis by (simp add: filter_period_def frame_empty_def)
next
  case False
  from assms obtain ts where ts: "map_of df ''Date'' = Some (TsCol ts)" "None \<notin> set ts"
    "length ts = nrows df"
    by (rule tidy_dates)
  from False ts(3) have ne: "ts \<noteq> []" by auto
  from ts(1) have dne: "df \<noteq> []" by auto
  have d: "dates df = map the ts" using ts(1) by (simp add: dates_def)
  define e where "e = Max (set (dates df))"
  define s where "s = (if period_key = ''1M'' then minus_offset e 0 1
                            else if period_key = ''3M'' then minus_offset e 0 3
                            else if period_key = ''YTD'' then (fst e, 1, 1, 0)
                            else if period_key = ''1Y'' then minus_offset e 1 0
                            else Min (set (dates df)))"
  have cm: "col_max ts = Some e"
    using col_max_tidy [OF ts(2) ne] by (simp add: e_def d)
  have ps: "period_start period_key ts (Some e) = Some s"
    using col_min_tidy [OF ts(2) ne]
    by (simp add: period_start_def s_def d year_start_def split: prod.splits)
  let ?m = "map (between (Some s) (Some e)) ts"
  have run: "filter_period df period_key = Inr (loc df ?m)"
    using False dne ts(1) cm ps by (simp add: filter_period_def frame_empty_def getitem_def)
  have "\<forall>p\<in>set df. col_len (snd p) = length ?m"
    using tidy_col_len [OF assms] ts(3) by simp
  from loc_take_rows [OF this]
  have "loc df ?m = take_rows (filter (\<lambda>i. ?m ! i) [0..<nrows df]) df"
    using ts(3) by simp
  also have "filter (\<lambda>i. ?m ! i) [0..<nrows df]
           = filter (\<lambda>i. s \<le> dates df ! i \<and> dates df ! i \<le> e) [0..<nrows df]"
  proof (rule filter_cong [OF refl])
    fix i assume "i \<in> set [0..<nrows df]"
    then have i: "i < length ts" using ts(3) by simp
    then have "ts ! i \<in> set ts" by simp
    with ts(2) obtain t where "ts ! i = Some t" by (cases "ts ! i") auto
    with i show "?m ! i = (s \<le> dates df ! i \<and> dates df ! i \<le> e)"
      by (simp add: d)
  qed
  finally have "loc df ?m = take_rows (filter (\<lambda>i. s \<le> dates df ! i \<and> dates df ! i \<le> e) [0..<nrows df]) df" .
  with run False show ?thesis
    by (simp add: Let_def e_def [symmetric] s_def [symmetric])
qed

theorem filter_period_window_witness:
  "is_tidy period_df \<and>
   (\<exists>out. filter_period period_df ''1M'' = Inr out \<and> out = take_rows [3, 4] period_df) \<and>
   filter_period period_df ''YTD'' = Inr (take_rows [2, 3, 4] period_df) \<and>
   filter_period period_df ''1Y'' = Inr period_df \<and>
   filter_period period_df ''5Y'' = Inr period_df \<and>
   minus_offset (2024, 3, 31, 0) 0 1 = (2024, 2, 29, 0)"
proof -
  have h: "is_tidy period_df" by (rule period_df_tidy)
  from filter_period_window [OF h, of "''1M''"] obtain out where
    "filter_period period_df ''1M'' = Inr out" by blast
  with period_examples h show ?thesis by simp
qed

section \<open>Properties of tidy_df\<close>

lemma coerce_loop_distinct:
  assumes "distinct (columns df)" and "set cs \<subseteq> set (columns df)" and "distinct cs"
  shows "coerce_loop L cs df =
           Inr (map (\<lambda>p. (fst p, if fst p \<in> set cs \<and> fst p \<noteq> ''Date''
                                 then coerce_numbers L (snd p) else snd p)) df)"
  using assms
proof (induction cs arbitrary: df)
  case Nil
  then show ?case by simp
next
  case (Cons c cs)
  show ?case
  proof (cases "c = ''Date''")
    case True
    with Cons.prems have "coerce_loop L (c # cs) df =
        Inr (map (\<lambda>p. (fst p, if fst p \<in> set cs \<and> fst p \<noteq> ''Date''
                                 then coerce_numbers L (snd p) else snd p)) df)"
      using Cons.IH [of df] by simp
    with True show ?thesis by (auto intro!: map_cong)
  next
    case False
    from Cons.prems have cin: "c \<in> set (columns df)" by simp
    then obtain col where col: "map_of df c = Some col"
      by (auto simp: columns_def) (metis map_of_eq_None_iff not_Some_eq image_eqI fst_conv)
    let ?df = "map (\<lambda>p. if fst p = c then (c, coerce_numbers L col) else p) df"
    have s: "setitem df c (coerce_numbers L col) = ?df"
      using setitem_present [OF Cons.prems(1) [unfolded columns_def] col] .
    have h1: "coerce_loop L cs ?df =
            Inr (map (\<lambda>p. (fst p, if fst p \<in> set cs \<and> fst p \<noteq> ''Date''
                                 then coerce_numbers L (snd p) else snd p)) ?df)"
      using Cons.prems by (intro Cons.IH) auto
    have h2: "map (\<lambda>p. (fst p, if fst p \<in> set cs \<and> fst p \<noteq> ''Date''
                                 then coerce_numbers L (snd p) else snd p)) ?df
        = map (\<lambda>p. (fst p, if fst p \<in> set (c # cs) \<and> fst p \<noteq> ''Date''
                                 then coerce_numbers L (snd p) else snd p)) df"
    proof -
      have "snd p = col" if "p \<in> set df" "fst p = c" for p
      proof -
        from col have "(c, col) \<in> set df" by (rule map_of_SomeD)
        moreover from that have "(c, snd p) \<in> set df" by (cases p) auto
        ultimately show ?thesis
          using Cons.prems(1) eq_key_imp_eq_value [of df c "snd p" col]
          by (simp add: columns_def)
      qed
      moreover from Cons.prems(3) have "c \<notin> set cs" by simp
      ultimately show ?thesis using False by (auto intro!: map_cong)
    qed
    have step: "coerce_loop L (c # cs) df = coerce_loop L cs ?df"
      using False col s distinct_count_le [OF Cons.prems(1), of c]
      by (simp add: getitem_def)
    show ?thesis by (simp only: step h1 h2)
  qed
qed

lemma coerce_numbers_len:
  "pandas_ok L \<Longrightarrow> col_len (coerce_numbers L col) = col_len col"
  by (cases col) (simp_all add: coerce_numbers_def astype_str_def pandas_ok_def)

lemma converted_eq:
  assumes dist: "distinct (map strip (columns df0))"
    and col: "map_of (rename_columns df0) ''Date'' = Some dcol"
  shows "map (\<lambda>p. (fst p, if fst p \<in> set (columns (rename_columns df0)) \<and> fst p \<noteq> ''Date''
                            then coerce_numbers L (snd p) else snd p))
           (map (\<lambda>p. if fst p = ''Date'' then (''Date'', TsCol (to_datetime L dcol)) else p)
              (rename_columns df0))
         = converted L df0"
proof -
  have d: "distinct (map fst (rename_columns df0))"
    using dist by (simp add: rename_columns_def columns_def comp_def)
  have "snd p = dcol" if "p \<in> set df0" "strip (fst p) = ''Date''" for p
  proof -
    from col have "(''Date'', dcol) \<in> set (rename_columns df0)" by (rule map_of_SomeD)
    moreover from that have "(''Date'', snd p) \<in> set (rename_columns df0)"
      by (force simp: rename_columns_def)
    ultimately show ?thesis
      using d eq_key_imp_eq_value [of "rename_columns df0" "''Date''" "snd p" dcol] by simp
  qed
  moreover have "strip (fst p) \<in> set (columns (rename_columns df0))" if "p \<in> set df0" for p
    using that by (force simp: rename_columns_def columns_def)
  ultimately show ?thesis
    by (auto simp: converted_def rename_columns_def intro!: map_cong)
qed

lemma tidy_df_shape:
  assumes ok: "pandas_ok L" and rect: "rect df0"
    and date: "''Date'' \<in> set (map strip (columns df0))"
    and dist: "distinct (map strip (columns df0))"
  shows "\<exists>idx. tidy_df L df0 = Inr (take_rows idx (converted L df0)) \<and>
           distinct idx \<and>
           set idx = {i. i < nrows df0 \<and> parsed_dates L df0 ! i \<noteq> None} \<and>
           sorted (map (\<lambda>i. the (parsed_dates L df0 ! i)) idx)"
proof -
  let ?df = "rename_columns df0"
  have cols: "columns ?df = map strip (columns df0)"
    by (simp add: rename_columns_def columns_def comp_def)
  have d: "distinct (map fst ?df)" using dist cols by (simp add: columns_def)
  from date cols have din: "''Date'' \<in> set (columns ?df)" by simp
  then obtain dcol where dcol: "map_of ?df ''Date'' = Some dcol"
    by (auto simp: columns_def) (metis map_of_eq_None_iff not_Some_eq image_eqI fst_conv)
  let ?ts = "to_datetime L dcol"
  have pd: "parsed_dates L df0 = ?ts" using dcol by (simp add: parsed_dates_def)
  from dcol have "(''Date'', dcol) \<in> set ?df" by (rule map_of_SomeD)
  then obtain p0 where p0: "p0 \<in> set df0" "snd p0 = dcol"
    by (auto simp: rename_columns_def)
  have lts: "length ?ts = nrows df0"
    using ok rect_len [OF rect p0(1)] p0(2) by (simp add: pandas_ok_def)
  let ?df1 = "map (\<lambda>p. if fst p = ''Date'' then (''Date'', TsCol ?ts) else p) ?df"
  have s1: "setitem ?df ''Date'' (TsCol ?ts) = ?df1"
    by (rule setitem_present [OF d dcol])
  have c1: "columns ?df1 = columns ?df" by simp
  have dd1: "distinct (columns ?df1)"
    unfolding c1 using d by (simp add: columns_def)
  have "coerce_loop L (columns ?df1) ?df1 =
          Inr (map (\<lambda>p. (fst p, if fst p \<in> set (columns ?df1) \<and> fst p \<noteq> ''Date''
                            then coerce_numbers L (snd p) else snd p)) ?df1)"
    by (rule coerce_loop_distinct [OF dd1 subset_refl dd1])
  also have "map (\<lambda>p. (fst p, if fst p \<in> set (columns ?df1) \<and> fst p \<noteq> ''Date''
                            then coerce_numbers L (snd p) else snd p)) ?df1 = converted L df0"
    unfolding c1 by (rule converted_eq [OF dist dcol])
  finally have loop: "coerce_loop L (columns ?df1) ?df1 = Inr (converted L df0)" .
  let ?df2 = "converted L df0"
  have m2: "map_of ?df2 ''Date'' = Some (TsCol ?ts)"
  proof -
    have a: "map_of ?df1 ''Date'' = Some (TsCol ?ts)"
      using din by (simp add: map_of_replace columns_def)
    have "map_of (map (\<lambda>p. (fst p, if fst p \<in> set (columns ?df) \<and> fst p \<noteq> ''Date''
                            then coerce_numbers L (snd p) else snd p)) ?df1) ''Date''
          = Some (TsCol ?ts)"
      using map_of_map2 [of "\<lambda>n x. if n \<in> set (columns ?df) \<and> n \<noteq> ''Date''
                            then coerce_numbers L x else x" ?df1 "''Date''"] a
      by simp
    then show ?thesis
      unfolding converted_eq [OF dist dcol, of L] .
  qed
  let ?m = "map (\<lambda>t. t \<noteq> None) ?ts"
  have drop: "dropna_subset ?df2 ''Date'' = Inr (loc ?df2 ?m)"
    using m2 by (simp add: dropna_subset_def getitem_def)
  have len2: "\<forall>p\<in>set ?df2. col_len (snd p) = length ?m"
  proof
    fix p assume "p \<in> set ?df2"
    then obtain q where q: "q \<in> set df0"
      "p = (strip (fst q), if strip (fst q) = ''Date'' then TsCol (to_datetime L (snd q))
                           else coerce_numbers L (snd q))"
      by (auto simp: converted_def)
    from rect_len [OF rect q(1)] ok q(2) lts show "col_len (snd p) = length ?m"
      by (auto simp: coerce_numbers_len) (simp add: pandas_ok_def)
  qed
  let ?kept = "filter (\<lambda>i. ?m ! i) [0..<length ?m]"
  have loc2: "loc ?df2 ?m = take_rows ?kept ?df2"
    by (rule loc_take_rows [OF len2])
  let ?ts' = "select ?m ?ts"
  have m3: "map_of (loc ?df2 ?m) ''Date'' = Some (TsCol ?ts')"
    using m2 unfolding loc_def by (simp only: map_of_map_snd) simp
  let ?idx = "argsort L (TsCol ?ts')"
  have sort: "sort_values L (loc ?df2 ?m) ''Date'' = Inr (take_rows ?idx (loc ?df2 ?m))"
    using m3 by (simp add: sort_values_def getitem_def)
  have run: "tidy_df L df0 = Inr (take_rows ?idx (loc ?df2 ?m))"
    using din dcol distinct_count_le [OF d [folded columns_def], of "''Date''"] s1 loop drop sort
    by (simp add: tidy_df_def Let_def getitem_def)
  have tsel: "?ts' = map (nth ?ts) ?kept"
    using select_nth [of ?m ?ts] by simp
  have lk: "length ?ts' = length ?kept" using tsel by simp
  from ok have perm: "distinct ?idx" "set ?idx = {..<length ?ts'}"
    and srt: "None \<notin> set ?ts' \<Longrightarrow> sorted (map (\<lambda>i. the (?ts' ! i)) ?idx)"
    by (simp_all add: pandas_ok_def)
  have inr: "\<forall>j\<in>set ?idx. j < length ?kept" using perm(2) lk by auto
  have keptlt: "\<forall>i\<in>set ?kept. i < length ?ts \<and> ?ts ! i \<noteq> None" by auto
  have nn: "None \<notin> set ?ts'"
    unfolding tsel using keptlt by (auto simp: in_set_conv_nth)
  let ?idx' = "map (nth ?kept) ?idx"
  have out: "take_rows ?idx (loc ?df2 ?m) = take_rows ?idx' ?df2"
    unfolding loc2 by (rule take_rows_take_rows [OF inr])
  have dk: "distinct ?kept" by simp
  have d': "distinct ?idx'"
    using perm(1) inr dk by (auto simp: distinct_map inj_on_def nth_eq_iff_index_eq)
  have "set ?idx' = nth ?kept ` {..<length ?kept}"
    using perm(2) lk by simp
  also have "\<dots> = set ?kept" by (auto simp: set_conv_nth)
  also have "\<dots> = {i. i < nrows df0 \<and> ?ts ! i \<noteq> None}"
    using lts by auto
  finally have s': "set ?idx' = {i. i < nrows df0 \<and> ?ts ! i \<noteq> None}" .
  have pt: "the (?ts ! (?kept ! j)) = the (?ts' ! j)" if "j \<in> set ?idx" for j
  proof -
    from that inr have "j < length ?kept" by blast
    then show ?thesis unfolding tsel by (simp only: nth_map)
  qed
  have "map (\<lambda>i. the (?ts ! i)) ?idx' = map (\<lambda>j. the (?ts ! (?kept ! j))) ?idx"
    by (simp only: map_map comp_def)
  also have "\<dots> = map (\<lambda>i. the (?ts' ! i)) ?idx"
    by (rule map_cong [OF refl]) (rule pt)
  finally have "map (\<lambda>i. the (?ts ! i)) ?idx' = map (\<lambda>i. the (?ts' ! i)) ?idx" .
  with srt [OF nn] have so: "sorted (map (\<lambda>i. the (?ts ! i)) ?idx')" by (simp only:)
  from run out have r: "tidy_df L df0 = Inr (take_rows ?idx' ?df2)" by (simp only:)
  show ?thesis
    unfolding pd by (rule exI [of _ ?idx']) (intro conjI r d' s' so)
qed

lemma converted_date:
  "map_of (converted L df) ''Date'' =
     map_option (\<lambda>col. TsCol (to_datetime L col)) (map_of (rename_columns df) ''Date'')"
  by (induction df) (auto simp: converted_def rename_columns_def)

lemma converted_text:
  assumes "(c, StrCol xs) \<in> set df" and "strip c \<noteq> ''Date''"
  shows "(strip c,
          NumCol (map (\<lambda>s. to_numeric L (str_replace CHR '','' ''.'' (str_replace CHR '' '' [] s))) xs))
         \<in> set (converted L df)"
proof -
  have "(strip c, coerce_numbers L (StrCol xs)) \<in> set (converted L df)"
    using assms by (force simp: converted_def)
  then show ?thesis by (simp add: coerce_numbers_def astype_str_def comp_def)
qed

lemma coerce_loop_not_schema: "coerce_loop L cs df \<noteq> Inl SchemaError"
  by (induction cs arbitrary: df) (auto simp: getitem_def split: option.splits)

lemma raw_df_rect: "rect raw_df"
  by code_simp

lemma raw_df_header:
  "''Date'' \<in> set (map strip (columns raw_df))" "distinct (map strip (columns raw_df))"
  by code_simp+

lemma raw_df_runs:
  "tidy_df demo_pandas raw_df =
     Inr [(''Date'', TsCol [Some (2024, 1, 2, 0), Some (2024, 1, 2, 0), Some (2024, 1, 3, 0)]),
          (''Fund'', NumCol [Fin 5, Fin 100, NaN])]"
  "parsed_dates demo_pandas raw_df =
     [Some (2024, 1, 3, 0), None, Some (2024, 1, 2, 0), Some (2024, 1, 2, 0)]"
  by (simp_all add: raw_df_def eval_defs)

lemma header_examples:
  "''Date'' \<in> set (map strip (columns padded_df))"
  "distinct (map strip (columns padded_df))"
  "''Date'' \<notin> set (map strip (columns inner_space_df))"
  "''Date'' \<notin> set (map strip (columns no_date_df))"
  "\<not> distinct (map strip (columns dup_df))"
  "rect padded_df"
  by (simp_all add: padded_df_def inner_space_df_def no_date_df_def dup_df_def columns_def
      strip_examples rect_def nrows_def)

lemma padded_df_run:
  "tidy_df demo_pandas padded_df =
     Inr [(''Date'', TsCol [Some (2024, 1, 3, 0)]), (''Fund'', NumCol [Fin 5])]"
  "tidy_df demo_pandas dup_df = Inl DuplicateKeys"
  by (simp_all add: padded_df_def dup_df_def strip_examples tidy_df_def Let_def
      rename_columns_def columns_def getitem_def setitem_def coerce_numbers_def astype_str_def
      str_replace_def demo_pandas_def parse_dmy_def parse_decimal_def is_digit_def digits_val_def
      days_in_month_def is_leap_def dropna_subset_def loc_def select_def sort_values_def
      take_rows_def na_last_def sort_key_def round64_small)

text \<open>
  C5.  \<^verbatim>\<open>tidy_df\<close> fails with the schema error exactly when no column is named \<open>Date\<close>
  once the headers are stripped, and then no table is returned.  A header \<open>Date\<close> wrapped
  in a tab, a space, U+0085, U+00A0 and U+3000 is found; a header \<open>Da te\<close> is not.
\<close>

theorem tidy_df_schema_error:
  "(tidy_df L df = Inl SchemaError \<longleftrightarrow> ''Date'' \<notin> set (map strip (columns df))) \<and>
   (''Date'' \<notin> set (map strip (columns df)) \<longrightarrow> (\<forall>out. tidy_df L df \<noteq> Inr out)) \<and>
   tidy_df L padded_df \<noteq> Inl SchemaError \<and>
   tidy_df L inner_space_df = Inl SchemaError"
proof -
  have iff: "tidy_df L f = Inl SchemaError \<longleftrightarrow> ''Date'' \<notin> set (map strip (columns f))" for f
  proof -
    have cols: "columns (rename_columns f) = map strip (columns f)"
      by (simp add: rename_columns_def columns_def comp_def)
    have "tidy_df L f \<noteq> Inl SchemaError" if "''Date'' \<in> set (map strip (columns f))"
      using that cols coerce_loop_not_schema
      by (auto simp: tidy_df_def Let_def getitem_def dropna_subset_def sort_values_def
          split: option.splits sum.splits)
    moreover have "tidy_df L f = Inl SchemaError" if "''Date'' \<notin> set (map strip (columns f))"
      using that cols by (simp add: tidy_df_def Let_def)
    ultimately show ?thesis by blast
  qed
  from iff [of df] have "''Date'' \<notin> set (map strip (columns df)) \<longrightarrow> (\<forall>out. tidy_df L df \<noteq> Inr out)"
    by auto
  moreover from iff [of padded_df] header_examples(1) have "tidy_df L padded_df \<noteq> Inl SchemaError"
    by blast
  moreover from iff [of inner_space_df] header_examples(3) have "tidy_df L inner_space_df = Inl SchemaError"
    by blast
  ultimately show ?thesis using iff [of df] by blast
qed

theorem tidy_df_schema_error_witness:
  "''Date'' \<notin> set (map strip (columns no_date_df)) \<and>
   tidy_df demo_pandas no_date_df = Inl SchemaError \<and>
   (\<forall>out. tidy_df demo_pandas no_date_df \<noteq> Inr out) \<and>
   ''Date'' \<in> set (map strip (columns padded_df)) \<and>
   tidy_df demo_pandas padded_df =
     Inr [(''Date'', TsCol [Some (2024, 1, 3, 0)]), (''Fund'', NumCol [Fin 5])]"
  using tidy_df_schema_error [of demo_pandas no_date_df] header_examples(1,4) padded_df_run(1)
  by blast

text \<open>
  C7.  On a text column \<^verbatim>\<open>coerce_numbers\<close> removes the spaces of every cell, then replaces
  each comma by a period, then hands the text to the library's number parser, whose failure
  value is \<open>NaN\<close>.  The text \<open>1 234,56\<close> reaches the parser as \<open>1234.56\<close>; with the
  decimal parser of \<open>demo_pandas\<close> the cell becomes the double nearest to 1234.56, and a
  cell that does not parse becomes \<open>NaN\<close>.
\<close>

theorem coerce_numbers_text:
  "coerce_numbers L (StrCol xs) =
     NumCol (map (\<lambda>s. to_numeric L (str_replace CHR '','' ''.'' (str_replace CHR '' '' [] s))) xs) \<and>
   coerce_numbers L (StrCol [''1 234,56'']) = NumCol [to_numeric L ''1234.56''] \<and>
   coerce_numbers demo_pandas (StrCol [''1 234,56'', ''n/a'']) = NumCol [round64 (123456 / 100), NaN] \<and>
   round64 (123456 / 100) = Fin (2714826150374277 / 2199023255552)"
proof -
  have "coerce_numbers L (StrCol xs) =
     NumCol (map (\<lambda>s. to_numeric L (str_replace CHR '','' ''.'' (str_replace CHR '' '' [] s))) xs)"
    for xs
    by (simp add: coerce_numbers_def astype_str_def comp_def)
  moreover have "str_replace CHR '','' ''.'' (str_replace CHR '' '' [] ''1 234,56'') = ''1234.56''"
    by (simp add: str_replace_def)
  moreover have "coerce_numbers demo_pandas (StrCol [''1 234,56'', ''n/a''])
      = NumCol [Fin (2714826150374277 / 2199023255552), NaN]"
    using parse_decimal_examples
    by (simp add: coerce_numbers_def astype_str_def str_replace_def demo_pandas_def)
  moreover have "round64 (123456 / 100) = Fin (2714826150374277 / 2199023255552)"
    using round64_example by simp
  ultimately show ?thesis by simp
qed

text \<open>
  C6.  For a rectangular frame with one stripped header \<open>Date\<close> and distinct stripped
  headers, \<^verbatim>\<open>tidy_df\<close> returns whatever the cells hold: the result consists of rows of the
  converted frame, each row whose date parsed taken exactly once and no row whose date did
  not parse; in the converted frame a text cell of a numeric column is what the number parser
  gives for its cleaned text, \<open>NaN\<close> when it does not parse.  (Two headers that strip to
  \<open>Date\<close> are refused by the library, as \<open>dup_df\<close> shows.)
\<close>

theorem tidy_df_bad_cells:
  assumes "pandas_ok L" and "rect df" and "''Date'' \<in> set (map strip (columns df))"
    and "distinct (map strip (columns df))"
  shows "(\<exists>idx. tidy_df L df = Inr (take_rows idx (converted L df)) \<and> distinct idx \<and>
            set idx = {i. i < nrows df \<and> parsed_dates L df ! i \<noteq> None}) \<and>
         (\<forall>c xs. (c, StrCol xs) \<in> set df \<and> strip c \<noteq> ''Date'' \<longrightarrow>
            (strip c,
             NumCol (map (\<lambda>s. to_numeric L (str_replace CHR '','' ''.'' (str_replace CHR '' '' [] s))) xs))
            \<in> set (converted L df))"
  using tidy_df_shape [OF assms] converted_text by blast

theorem tidy_df_bad_cells_witness:
  "pandas_ok demo_pandas \<and> rect raw_df \<and> ''Date'' \<in> set (map strip (columns raw_df)) \<and>
   distinct (map strip (columns raw_df)) \<and>
   (\<exists>idx. tidy_df demo_pandas raw_df = Inr (take_rows idx (converted demo_pandas raw_df)) \<and>
      set idx = {i. i < nrows raw_df \<and> parsed_dates demo_pandas raw_df ! i \<noteq> None}) \<and>
   tidy_df demo_pandas raw_df =
     Inr [(''Date'', TsCol [Some (2024, 1, 2, 0), Some (2024, 1, 2, 0), Some (2024, 1, 3, 0)]),
          (''Fund'', NumCol [Fin 5, Fin 100, NaN])] \<and>
   rect padded_df \<and> ''Date'' \<in> set (map strip (columns padded_df)) \<and>
   distinct (map strip (columns padded_df)) \<and>
   tidy_df demo_pandas padded_df =
     Inr [(''Date'', TsCol [Some (2024, 1, 3, 0)]), (''Fund'', NumCol [Fin 5])] \<and>
   \<not> distinct (map strip (columns dup_df)) \<and>
   tidy_df demo_pandas dup_df = Inl DuplicateKeys"
  using tidy_df_bad_cells [OF demo_pandas_ok raw_df_rect raw_df_header]
    demo_pandas_ok raw_df_rect raw_df_header raw_df_runs(1) header_examples padded_df_run
  by blast

section \<open>Properties of the functions on the store\<close>

lemma coerce_loop_st_pure:
  assumes "d < length st"
  shows "\<exists>f. coerce_loop_st L cs st d =
               (case coerce_loop L cs (st ! d) of Inl e \<Rightarrow> Inl e | Inr out \<Rightarrow> Inr (), st[d := f]) \<and>
             (\<forall>out. coerce_loop L cs (st ! d) = Inr out \<longrightarrow> f = out)"
  using assms
proof (induction cs arbitrary: st)
  case Nil
  then show ?case by (intro exI [of _ "st ! d"]) simp
next
  case (Cons c cs)
  show ?case
  proof (cases "c = ''Date''")
    case True
    with Cons show ?thesis by simp
  next
    case False
    show ?thesis
    proof (cases "1 < count_list (columns (st ! d)) c")
      case True
      with False show ?thesis by (intro exI [of _ "st ! d"]) simp
    next
      case nodup: False
      show ?thesis
      proof (cases "getitem (st ! d) c")
        case (Inl e)
        with False nodup show ?thesis by (intro exI [of _ "st ! d"]) simp
      next
        case (Inr col)
        let ?st = "st[d := setitem (st ! d) c (coerce_numbers L col)]"
        from Cons.prems have "d < length ?st" by simp
        from Cons.IH [OF this] obtain f where
          f: "coerce_loop_st L cs ?st d =
               (case coerce_loop L cs (?st ! d) of Inl e \<Rightarrow> Inl e | Inr out \<Rightarrow> Inr (), ?st[d := f])"
          "\<forall>out. coerce_loop L cs (?st ! d) = Inr out \<longrightarrow> f = out"
          by blast
        with False nodup Inr Cons.prems show ?thesis
          by (intro exI [of _ f]) simp
      qed
    qed
  qed
qed

lemma normalize_loop_st_pure:
  assumes "r < length st" and "out < length st" and "r \<noteq> out"
  shows "\<exists>f. normalize_loop_st st r cols out =
               (case normalize_loop (st ! r) cols (st ! out) of Inl e \<Rightarrow> Inl e | Inr x \<Rightarrow> Inr (),
                st[out := f]) \<and>
             (\<forall>x. normalize_loop (st ! r) cols (st ! out) = Inr x \<longrightarrow> f = x)"
  using assms
proof (induction cols arbitrary: st)
  case Nil
  then show ?case by (intro exI [of _ "st ! out"]) simp
next
  case (Cons c cols)
  show ?case
  proof (cases "getitem (st ! r) c")
    case (Inl e)
    then show ?thesis by (intro exI [of _ "st ! out"]) simp
  next
    case (Inr col)
    show ?thesis
    proof (cases "col_len (dropna col) = 0")
      case True
      let ?st = "st[out := setitem (st ! out) c (na_column (nrows (st ! out)))]"
      from Cons.prems have "r < length ?st" "out < length ?st" by simp_all
      from Cons.IH [OF this Cons.prems(3)] obtain f where
        "normalize_loop_st ?st r cols out =
           (case normalize_loop (?st ! r) cols (?st ! out) of Inl e \<Rightarrow> Inl e | Inr x \<Rightarrow> Inr (),
            ?st[out := f])"
        "\<forall>x. normalize_loop (?st ! r) cols (?st ! out) = Inr x \<longrightarrow> f = x"
        by blast
      with True Inr Cons.prems show ?thesis
        by (intro exI [of _ f]) simp
    next
      case False
      show ?thesis
      proof (cases "rebase col (dropna col)")
        case (Inl e)
        with False Inr show ?thesis by (intro exI [of _ "st ! out"]) simp
      next
        case reb: (Inr col')
        let ?st = "st[out := setitem (st ! out) c col']"
        from Cons.prems have "r < length ?st" "out < length ?st" by simp_all
        from Cons.IH [OF this Cons.prems(3)] obtain f where
          "normalize_loop_st ?st r cols out =
             (case normalize_loop (?st ! r) cols (?st ! out) of Inl e \<Rightarrow> Inl e | Inr x \<Rightarrow> Inr (),
              ?st[out := f])"
          "\<forall>x. normalize_loop (?st ! r) cols (?st ! out) = Inr x \<longrightarrow> f = x"
          by blast
        with False reb Inr Cons.prems show ?thesis
          by (intro exI [of _ f]) simp
      qed
    qed
  qed
qed

lemma tidy_df_st_pure:
  assumes "r < length st"
  shows "\<exists>extra. snd (tidy_df_st L st r) = st @ extra \<and>
           (case fst (tidy_df_st L st r) of
              Inl e \<Rightarrow> tidy_df L (st ! r) = Inl e
            | Inr s \<Rightarrow> length st \<le> s \<and> s < length (st @ extra) \<and>
                       tidy_df L (st ! r) = Inr ((st @ extra) ! s))"
proof -
  let ?df = "rename_columns (st ! r)"
  let ?n = "length st"
  have a: "alloc st (st ! r) = (?n, st @ [st ! r])" by (simp add: alloc_def)
  have st2: "(st @ [st ! r])[?n := rename_columns ((st @ [st ! r]) ! ?n)] = st @ [?df]" by simp
  show ?thesis
  proof (cases "''Date'' \<notin> set (columns ?df) \<or> 1 < count_list (columns ?df) ''Date''")
    case True
    then show ?thesis
      by (intro exI [of _ "[?df]"]) (auto simp: tidy_df_st_def tidy_df_def a Let_def)
  next
    case hdr: False
    show ?thesis
    proof (cases "getitem ?df ''Date''")
      case (Inl e)
      with hdr show ?thesis
        by (intro exI [of _ "[?df]"]) (auto simp: tidy_df_st_def tidy_df_def a Let_def)
    next
      case (Inr col)
      let ?df1 = "setitem ?df ''Date'' (TsCol (to_datetime L col))"
      have st3: "(st @ [?df])[?n := ?df1] = st @ [?df1]" by simp
      from coerce_loop_st_pure [of ?n "st @ [?df1]" L "columns ?df1"] obtain f where
        f: "coerce_loop_st L (columns ?df1) (st @ [?df1]) ?n =
               (case coerce_loop L (columns ?df1) ?df1 of Inl e \<Rightarrow> Inl e | Inr out \<Rightarrow> Inr (),
                st @ [f])"
          "\<forall>out. coerce_loop L (columns ?df1) ?df1 = Inr out \<longrightarrow> f = out"
        by auto
      have head: "tidy_df_st L st r =
          (case coerce_loop_st L (columns ?df1) (st @ [?df1]) ?n of
             (Inl e, st4) \<Rightarrow> (Inl e, st4)
           | (Inr u, st4) \<Rightarrow>
               (case dropna_subset (st4 ! ?n) ''Date'' of
                  Inl e \<Rightarrow> (Inl e, st4)
                | Inr df3 \<Rightarrow>
                    (let (t, st5) = alloc st4 df3
                     in case sort_values L (st5 ! t) ''Date'' of
                          Inl e \<Rightarrow> (Inl e, st5)
                        | Inr df4 \<Rightarrow> (let (s, st6) = alloc st5 df4 in (Inr s, st6)))))"
        using hdr Inr by (simp add: tidy_df_st_def a Let_def)
      have pure: "tidy_df L (st ! r) =
          (case coerce_loop L (columns ?df1) ?df1 of
             Inl e \<Rightarrow> Inl e
           | Inr df2 \<Rightarrow>
               (case dropna_subset df2 ''Date'' of
                  Inl e \<Rightarrow> Inl e
                | Inr df3 \<Rightarrow> sort_values L df3 ''Date''))"
        using hdr Inr by (simp add: tidy_df_def Let_def)
      show ?thesis
      proof (cases "coerce_loop L (columns ?df1) ?df1")
        case (Inl e)
        with f head pure show ?thesis
          by (intro exI [of _ "[f]"]) simp
      next
        case df2: (Inr df2)
        with f have f2: "f = df2" by simp
        show ?thesis
        proof (cases "dropna_subset df2 ''Date''")
          case (Inl e)
          with f f2 df2 head pure show ?thesis
            by (intro exI [of _ "[df2]"]) simp
        next
          case df3: (Inr df3)
          show ?thesis
          proof (cases "sort_values L df3 ''Date''")
            case (Inl e)
            with f f2 df2 df3 head pure show ?thesis
              by (intro exI [of _ "[df2, df3]"]) (simp add: alloc_def nth_append)
          next
            case (Inr df4)
            with f f2 df2 df3 head pure show ?thesis
              by (intro exI [of _ "[df2, df3, df4]"]) (simp add: alloc_def nth_append)
          qed
        qed
      qed
    qed
  qed
qed

lemma filter_period_st_pure:
  assumes "r < length st"
  shows "\<exists>extra. snd (filter_period_st st r k) = st @ extra \<and>
           (case fst (filter_period_st st r k) of
              Inl e \<Rightarrow> filter_period (st ! r) k = Inl e
            | Inr s \<Rightarrow> s < length (st @ extra) \<and>
                       filter_period (st ! r) k = Inr ((st @ extra) ! s) \<and>
                       (if frame_empty (st ! r) then s = r else s = length st))"
proof (cases "frame_empty (st ! r)")
  case True
  with assms show ?thesis
    by (intro exI [of _ "[]"]) (simp add: filter_period_st_def filter_period_def)
next
  case False
  show ?thesis
  proof (cases "filter_period (st ! r) k")
    case (Inl e)
    with False show ?thesis
      by (intro exI [of _ "[]"]) (simp add: filter_period_st_def)
  next
    case (Inr sel)
    with False show ?thesis
      by (intro exI [of _ "[sel]"]) (simp add: filter_period_st_def alloc_def)
  qed
qed

lemma normalize_from_first_st_pure:
  assumes "r < length st"
  shows "\<exists>extra. snd (normalize_from_first_st st r cols) = st @ extra \<and>
           (case fst (normalize_from_first_st st r cols) of
              Inl e \<Rightarrow> normalize_from_first (st ! r) cols = Inl e
            | Inr s \<Rightarrow> length st \<le> s \<and> s < length (st @ extra) \<and>
                       normalize_from_first (st ! r) cols = Inr ((st @ extra) ! s))"
proof (cases "getitems (st ! r) [''Date'']")
  case (Inl e)
  then show ?thesis
    by (intro exI [of _ "[]"]) (simp add: normalize_from_first_st_def normalize_from_first_def)
next
  case (Inr sel)
  let ?n = "length st"
  let ?st2 = "st @ [sel, sel]"
  from normalize_loop_st_pure [of r ?st2 "Suc ?n" cols] assms obtain f where
    f: "normalize_loop_st ?st2 r cols (Suc ?n) =
          (case normalize_loop (st ! r) cols sel of Inl e \<Rightarrow> Inl e | Inr x \<Rightarrow> Inr (),
           st @ [sel, f])"
       "\<forall>x. normalize_loop (st ! r) cols sel = Inr x \<longrightarrow> f = x"
    by (auto simp: nth_append list_update_append)
  have head: "normalize_from_first_st st r cols =
      (case normalize_loop_st ?st2 r cols (Suc ?n) of
         (Inl e, st3) \<Rightarrow> (Inl e, st3) | (Inr u, st3) \<Rightarrow> (Inr (Suc ?n), st3))"
    using Inr by (simp add: normalize_from_first_st_def alloc_def split: prod.splits sum.splits)
  have pure: "normalize_from_first (st ! r) cols = normalize_loop (st ! r) cols sel"
    using Inr by (simp add: normalize_from_first_def)
  show ?thesis
  proof (cases "normalize_loop (st ! r) cols sel")
    case (Inl e)
    with f head pure show ?thesis
      by (intro exI [of _ "[sel, f]"]) simp
  next
    case (Inr x)
    with f head pure show ?thesis
      by (intro exI [of _ "[sel, x]"]) (simp add: nth_append)
  qed
qed

lemma content_eq:
  assumes "snd res = st @ extra"
    and "case fst res of Inl e \<Rightarrow> p = Inl e | Inr s \<Rightarrow> p = Inr ((st @ extra) ! s)"
  shows "content res = p"
  using assms by (simp add: content_def split: sum.splits)

lemma filter_then_rebase_st_pure:
  assumes "r < length st"
  shows "\<exists>extra. snd (filter_then_rebase_st st r k cols) = st @ extra \<and>
           content (filter_then_rebase_st st r k cols) =
             (case filter_period (st ! r) k of
                Inl e \<Rightarrow> Inl e
              | Inr dff \<Rightarrow> normalize_from_first dff cols)"
proof -
  from filter_period_st_pure [OF assms, of k] obtain ex1 where
    s1: "snd (filter_period_st st r k) = st @ ex1"
    and c1: "case fst (filter_period_st st r k) of
              Inl e \<Rightarrow> filter_period (st ! r) k = Inl e
            | Inr s \<Rightarrow> s < length (st @ ex1) \<and>
                       filter_period (st ! r) k = Inr ((st @ ex1) ! s) \<and>
                       (if frame_empty (st ! r) then s = r else s = length st)"
    by blast
  show ?thesis
  proof (cases "fst (filter_period_st st r k)")
    case (Inl e)
    with c1 have "filter_period (st ! r) k = Inl e" by simp
    moreover from Inl s1 have "filter_then_rebase_st st r k cols = (Inl e, st @ ex1)"
      by (cases "filter_period_st st r k") (simp add: filter_then_rebase_st_def)
    ultimately show ?thesis
      by (intro exI [of _ ex1]) (simp add: content_def)
  next
    case (Inr dff)
    with c1 have d: "dff < length (st @ ex1)"
      "filter_period (st ! r) k = Inr ((st @ ex1) ! dff)" by simp_all
    from Inr s1 have run: "filter_then_rebase_st st r k cols =
        normalize_from_first_st (st @ ex1) dff cols"
      by (cases "filter_period_st st r k") (simp add: filter_then_rebase_st_def)
    from normalize_from_first_st_pure [OF d(1), of cols] obtain ex2 where
      s2: "snd (normalize_from_first_st (st @ ex1) dff cols) = (st @ ex1) @ ex2"
      and c2: "case fst (normalize_from_first_st (st @ ex1) dff cols) of
              Inl e \<Rightarrow> normalize_from_first ((st @ ex1) ! dff) cols = Inl e
            | Inr s \<Rightarrow> length (st @ ex1) \<le> s \<and> s < length ((st @ ex1) @ ex2) \<and>
                 normalize_from_first ((st @ ex1) ! dff) cols = Inr (((st @ ex1) @ ex2) ! s)"
      by blast
    have "content (normalize_from_first_st (st @ ex1) dff cols)
        = normalize_from_first ((st @ ex1) ! dff) cols"
      by (rule content_eq [OF s2]) (use c2 in \<open>auto split: sum.splits\<close>)
    with run s2 d(2) show ?thesis
      by (intro exI [of _ "ex1 @ ex2"]) simp
  qed
qed

lemma pct_change_period:
  "pct_change (Fin 4) (Fin 4) = Fin 0" "pct_change (Fin 4) (Fin 5) = Fin 25"
  by code_simp+

lemma period_rebased:
  "normalize_from_first (take_rows [3, 4] period_df) [''Fund''] =
     Inr [(''Date'', TsCol [Some (2024, 1, 31, 0), Some (2024, 2, 29, 0)]),
          (''Fund'', NumCol [Fin 0, Fin 25])]"
  by (simp add: take_rows_def period_df_def normalize_from_first_def getitems_def getitem_def
      columns_def setitem_def nrows_def pct_change_period)

lemma period_df_not_empty: "\<not> frame_empty period_df"
  by (simp add: frame_empty_def period_df_def nrows_def)

text \<open>
  C8 (as amended).  Each of \<^verbatim>\<open>tidy_df\<close>, \<^verbatim>\<open>filter_period\<close> and \<^verbatim>\<open>normalize_from_first\<close>
  leaves every frame that existed before the call as it was, its argument included, and
  returns the frame the function computes on the content.  The result of \<^verbatim>\<open>tidy_df\<close> and of
  \<^verbatim>\<open>normalize_from_first\<close> is a new frame; so is the result of \<^verbatim>\<open>filter_period\<close> unless its
  argument is empty, in which case the result is the argument itself.
\<close>

theorem steps_leave_argument_unchanged:
  assumes "r < length st"
  shows "(\<forall>a<length st. snd (tidy_df_st L st r) ! a = st ! a) \<and>
         (\<forall>s. fst (tidy_df_st L st r) = Inr s \<longrightarrow>
              length st \<le> s \<and> s < length (snd (tidy_df_st L st r))) \<and>
         content (tidy_df_st L st r) = tidy_df L (st ! r) \<and>
         (\<forall>a<length st. snd (filter_period_st st r k) ! a = st ! a) \<and>
         (\<forall>s. fst (filter_period_st st r k) = Inr s \<longrightarrow>
              s < length (snd (filter_period_st st r k)) \<and>
              (if frame_empty (st ! r) then s = r else length st \<le> s)) \<and>
         content (filter_period_st st r k) = filter_period (st ! r) k \<and>
         (\<forall>a<length st. snd (normalize_from_first_st st r cols) ! a = st ! a) \<and>
         (\<forall>s. fst (normalize_from_first_st st r cols) = Inr s \<longrightarrow>
              length st \<le> s \<and> s < length (snd (normalize_from_first_st st r cols))) \<and>
         content (normalize_from_first_st st r cols) = normalize_from_first (st ! r) cols"
proof -
  from tidy_df_st_pure [OF assms, of L] obtain e1 where
    t: "snd (tidy_df_st L st r) = st @ e1"
       "case fst (tidy_df_st L st r) of
              Inl e \<Rightarrow> tidy_df L (st ! r) = Inl e
            | Inr s \<Rightarrow> length st \<le> s \<and> s < length (st @ e1) \<and>
                       tidy_df L (st ! r) = Inr ((st @ e1) ! s)"
    by blast
  have T: "(\<forall>a<length st. snd (tidy_df_st L st r) ! a = st ! a) \<and>
         (\<forall>s. fst (tidy_df_st L st r) = Inr s \<longrightarrow>
              length st \<le> s \<and> s < length (snd (tidy_df_st L st r))) \<and>
         content (tidy_df_st L st r) = tidy_df L (st ! r)"
    using t by (auto simp: nth_append content_def split: sum.splits)
  from filter_period_st_pure [OF assms, of k] obtain e2 where
    f: "snd (filter_period_st st r k) = st @ e2"
       "case fst (filter_period_st st r k) of
              Inl e \<Rightarrow> filter_period (st ! r) k = Inl e
            | Inr s \<Rightarrow> s < length (st @ e2) \<and>
                       filter_period (st ! r) k = Inr ((st @ e2) ! s) \<and>
                       (if frame_empty (st ! r) then s = r else s = length st)"
    by blast
  have F: "(\<forall>a<length st. snd (filter_period_st st r k) ! a = st ! a) \<and>
         (\<forall>s. fst (filter_period_st st r k) = Inr s \<longrightarrow>
              s < length (snd (filter_period_st st r k)) \<and>
              (if frame_empty (st ! r) then s = r else length st \<le> s)) \<and>
         content (filter_period_st st r k) = filter_period (st ! r) k"
    using f by (auto simp: nth_append content_def split: sum.splits if_splits)
  from normalize_from_first_st_pure [OF assms, of cols] obtain e3 where
    n: "snd (normalize_from_first_st st r cols) = st @ e3"
       "case fst (normalize_from_first_st st r cols) of
              Inl e \<Rightarrow> normalize_from_first (st ! r) cols = Inl e
            | Inr s \<Rightarrow> length st \<le> s \<and> s < length (st @ e3) \<and>
                       normalize_from_first (st ! r) cols = Inr ((st @ e3) ! s)"
    by blast
  have N: "(\<forall>a<length st. snd (normalize_from_first_st st r cols) ! a = st ! a) \<and>
         (\<forall>s. fst (normalize_from_first_st st r cols) = Inr s \<longrightarrow>
              length st \<le> s \<and> s < length (snd (normalize_from_first_st st r cols))) \<and>
         content (normalize_from_first_st st r cols) = normalize_from_first (st ! r) cols"
    using n by (auto simp: nth_append content_def split: sum.splits)
  from T F N show ?thesis by (simp only:) simp
qed

theorem steps_leave_argument_unchanged_witness:
  "(0::nat) < length [period_df] \<and>
   snd (filter_period_st [period_df] 0 ''1M'') ! 0 = period_df \<and>
   snd (normalize_from_first_st [period_df] 0 [''Fund'']) ! 0 = period_df \<and>
   snd (tidy_df_st demo_pandas [period_df] 0) ! 0 = period_df \<and>
   filter_period_st [period_df] 0 ''1M'' = (Inr 1, [period_df, take_rows [3, 4] period_df])"
proof -
  have h: "(0::nat) < length [period_df]" by simp
  have "filter_period_st [period_df] 0 ''1M'' = (Inr 1, [period_df, take_rows [3, 4] period_df])"
    by (simp add: filter_period_st_def alloc_def period_examples period_df_not_empty)
  with steps_leave_argument_unchanged [OF h, of demo_pandas "''1M''" "[''Fund'']"] show ?thesis
    by simp
qed

text \<open>
  C8 as stated fails for \<^verbatim>\<open>filter_period\<close> on an empty table: \<^verbatim>\<open>if df.empty: return df\<close>
  returns the very frame it was given, and no new table is produced.
\<close>

theorem filter_period_alias_counterexample:
  "is_tidy empty_df \<and> filter_period_st [empty_df] 0 ''MAX'' = (Inr 0, [empty_df])"
proof -
  have "is_tidy empty_df" by code_simp
  moreover have "frame_empty empty_df"
    by (simp add: frame_empty_def empty_df_def nrows_def)
  ultimately show ?thesis by (simp add: filter_period_st_def)
qed

text \<open>
  C9.  Filtering then rebasing depends on nothing but the content of the frame it is given,
  the key and the selection: a second call in the store the first call left gives a result
  of identical content, and so does a call in any other store that holds the same frame.
\<close>

theorem filter_then_rebase_repeatable:
  assumes "r < length st"
  shows "content (filter_then_rebase_st (snd (filter_then_rebase_st st r k cols)) r k cols) =
           content (filter_then_rebase_st st r k cols) \<and>
         (\<forall>st2 r2. r2 < length st2 \<and> st2 ! r2 = st ! r \<longrightarrow>
            content (filter_then_rebase_st st2 r2 k cols) =
              content (filter_then_rebase_st st r k cols))"
proof -
  from filter_then_rebase_st_pure [OF assms, of k cols] obtain extra where
    s: "snd (filter_then_rebase_st st r k cols) = st @ extra"
    and c: "content (filter_then_rebase_st st r k cols) =
             (case filter_period (st ! r) k of
                Inl e \<Rightarrow> Inl e | Inr dff \<Rightarrow> normalize_from_first dff cols)"
    by blast
  have any: "content (filter_then_rebase_st st2 r2 k cols) =
              content (filter_then_rebase_st st r k cols)"
    if "r2 < length st2" "st2 ! r2 = st ! r" for st2 r2
    using filter_then_rebase_st_pure [OF that(1), of k cols] that(2) c by auto
  have "r < length (st @ extra)" "(st @ extra) ! r = st ! r"
    using assms by (simp_all add: nth_append)
  from any [OF this] s any show ?thesis by simp
qed

theorem filter_then_rebase_repeatable_witness:
  "(0::nat) < length [period_df] \<and>
   content (filter_then_rebase_st (snd (filter_then_rebase_st [period_df] 0 ''1M'' [''Fund'']))
              0 ''1M'' [''Fund'']) =
     content (filter_then_rebase_st [period_df] 0 ''1M'' [''Fund'']) \<and>
   content (filter_then_rebase_st [period_df] 0 ''1M'' [''Fund'']) =
     Inr [(''Date'', TsCol [Some (2024, 1, 31, 0), Some (2024, 2, 29, 0)]),
          (''Fund'', NumCol [Fin 0, Fin 25])]"
proof -
  have h: "(0::nat) < length [period_df]" by simp
  from filter_then_rebase_st_pure [OF h, of "''1M''" "[''Fund'']"]
  have "content (filter_then_rebase_st [period_df] 0 ''1M'' [''Fund'']) =
     Inr [(''Date'', TsCol [Some (2024, 1, 31, 0), Some (2024, 2, 29, 0)]),
          (''Fund'', NumCol [Fin 0, Fin 25])]"
    by (auto simp: period_examples period_rebased)
  with filter_then_rebase_repeatable [OF h, of "''1M''" "[''Fund'']"] h show ?thesis
    by blast
qed

end
